theory Spec2Isabelle
  imports Main
begin

text \<open>
  The end-to-end encryption core of the Matrix adapter: the message path from the
  timeline handler to \<open>onMessage\<close>, the retry of pending decryptions, the restore of keys
  from the backup, proactive verification (all of \<open>MatrixAdapter\<close>), and the SAS
  verification handler \<open>MatrixVerificationHandler\<close>.  The SDK, the pairing store, the agent
  and the audio, image and reaction handlers are collaborators: what they answer is a
  parameter of every function here.
\<close>

section \<open>JavaScript values used by the adapter\<close>

text \<open>
  A thrown exception or a rejected promise is a value of type \<open>error\<close>; a computation
  that may throw returns \<open>error + 'a\<close> with \<open>Inl\<close> for the exception.  An optional
  string (\<open>string | undefined | null\<close>) is a \<open>string option\<close>; JavaScript treats the
  empty string as falsy as well.
\<close>

datatype error = Error string

definition falsy :: "string option \<Rightarrow> bool" where
  "falsy s = (case s of None \<Rightarrow> True | Some v \<Rightarrow> v = [])"

text \<open>
  A string is the list of its UTF-16 code units, and a \<open>char\<close> is the code unit of the
  same number (\<open>of_char\<close>), so the strings here are those whose code units are all below
  256.  \<open>String.prototype.trim\<close> removes from both ends the code units that ECMAScript
  calls \<open>WhiteSpace\<close> or \<open>LineTerminator\<close>: the table \<open>whiteSpace\<close>.  Seven of them
  are below 256, the no-break space U+00A0 among them; the others (U+1680, U+2000 to
  U+200A, U+2028, U+2029, U+202F, U+205F, U+3000, U+FEFF) are not values of \<open>char\<close>.
\<close>

definition whiteSpace :: "nat list" where
  "whiteSpace = [0x0009, 0x000A, 0x000B, 0x000C, 0x000D, 0x0020, 0x00A0, 0x1680,
                 0x2000, 0x2001, 0x2002, 0x2003, 0x2004, 0x2005, 0x2006, 0x2007, 0x2008, 0x2009,
                 0x200A, 0x2028, 0x2029, 0x202F, 0x205F, 0x3000, 0xFEFF]"

definition is_space :: "char \<Rightarrow> bool" where
  "is_space c = (c \<in> set [CHR 0x09, CHR 0x0A, CHR 0x0B, CHR 0x0C, CHR 0x0D, CHR 0x20, CHR 0xA0])"

text \<open>\<open>String.prototype.trim\<close>.\<close>

definition trim :: "string \<Rightarrow> string" where
  "trim s = rev (dropWhile is_space (rev (dropWhile is_space s)))"

definition startsWith :: "string \<Rightarrow> string \<Rightarrow> bool" where
  "startsWith s p = (take (length p) s = p)"

subsection \<open>A JavaScript \<open>Map\<close> as an insertion-ordered association list\<close>

text \<open>
  \<open>Map.set\<close> overwrites the value of a key that is present and keeps its position, and
  appends a key that is new; \<open>Map.delete\<close> removes the key; iteration follows insertion
  order.  A well-formed map has no key twice (\<open>wf_map\<close>).
\<close>

definition map_has :: "('k \<times> 'v) list \<Rightarrow> 'k \<Rightarrow> bool" where
  "map_has m k = (k \<in> set (map fst m))"

definition map_get :: "('k \<times> 'v) list \<Rightarrow> 'k \<Rightarrow> 'v option" where
  "map_get m k = map_of m k"

definition map_set :: "('k \<times> 'v) list \<Rightarrow> 'k \<Rightarrow> 'v \<Rightarrow> ('k \<times> 'v) list" where
  "map_set m k v =
     (if map_has m k then map (\<lambda>e. if fst e = k then (k, v) else e) m else m @ [(k, v)])"

definition map_delete :: "('k \<times> 'v) list \<Rightarrow> 'k \<Rightarrow> ('k \<times> 'v) list" where
  "map_delete m k = filter (\<lambda>e. fst e \<noteq> k) m"

definition wf_map :: "('k \<times> 'v) list \<Rightarrow> bool" where
  "wf_map m = distinct (map fst m)"

section \<open>Events, rooms and inbound messages\<close>

text \<open>
  The accessors of an SDK event (\<open>getType\<close>, \<open>getSender\<close>, \<open>getClearContent\<close>, ...) are
  fields: each is what the accessor returns when the code reads it.  No relation between
  the fields is assumed.
\<close>

record Content =
  msgtype :: "string option"
  body :: "string option"
  sender_key :: "string option"
  session_id :: "string option"
  algorithm :: "string option"

record MatrixEvent =
  getId :: "string option"
  getType :: string
  getSender :: "string option"
  getRoomId :: "string option"
  getTs :: int
  getClearContent :: "Content option"
  getContent :: Content

record Room =
  roomId :: string
  roomName :: string
  getJoinedMembers :: nat

record InboundMessage =
  channel :: string
  chatId :: string
  userId :: string
  userName :: string
  userHandle :: string
  messageId :: "string option"
  msg_text :: string
  timestamp :: int
  isGroup :: bool
  groupName :: "string option"

record Client =
  getUserId :: "string option"
  getDeviceId :: "string option"
  getCrypto :: bool
  rooms :: "(string \<times> Room) list"

definition getRoom :: "Client \<Rightarrow> string option \<Rightarrow> Room option" where
  "getRoom c rid = (case rid of None \<Rightarrow> None | Some r \<Rightarrow> map_of (rooms c) r)"

record Config =
  selfChatMode :: bool
  dmPolicy :: string
  allowedUsers :: "string list"
  recoveryKey :: "string option"
  userDeviceId :: "string option"

subsection \<open>Calls to collaborators\<close>

text \<open>
  Every call the adapter makes to a collaborator (the transport client, the pairing
  store, the agent callback, the non-core handlers) is appended to a trace, in the order
  the calls are made.  \<open>HandleMessageEvent\<close> and \<open>RetryPendingDecryptions\<close> record the
  entry into the adapter's own two methods of that name.
\<close>

datatype call =
    SendMessage string string
  | OnCommand string
  | IsUserAllowed string
  | UpsertPairingRequest string
  | OnMessage InboundMessage
  | HandleAudioMessage MatrixEvent Room
  | HandleImageMessage MatrixEvent Room
  | HandleReactionEvent MatrixEvent
  | HandleMessageEvent MatrixEvent Room
  | RetryPendingDecryptions
  | RequestRoomKey string string string
  | StoreSessionBackupPrivateKey
  | CheckKeyBackupAndEnable
  | RestoreKeyBackup
  | GetUserDeviceInfo string
  | GetDeviceVerificationStatus string string
  | RequestDeviceVerification string string
  | Sleep nat

text \<open>
  What the collaborators answer is a parameter: a record of functions, one per
  collaborator, each returning a value or an exception.  Theorems quantify over it.
\<close>

record env =
  env_onMessage :: "(InboundMessage \<Rightarrow> error option) option"
  env_onCommand :: "(string \<Rightarrow> error + string option) option"
  env_clientSendMessage :: "string \<Rightarrow> string \<Rightarrow> error option"
  env_isUserAllowed :: "string \<Rightarrow> string list \<Rightarrow> error + bool"
  env_upsertPairingRequest :: "string \<Rightarrow> error + (string option \<times> bool)"
  env_handleAudioMessage :: "MatrixEvent \<Rightarrow> Room \<Rightarrow> error + InboundMessage option"
  env_handleImageMessage :: "MatrixEvent \<Rightarrow> Room \<Rightarrow> error option"
  env_handleReactionEvent :: "MatrixEvent \<Rightarrow> error option"
  env_requestRoomKey :: "MatrixEvent \<Rightarrow> error option"
  env_decodeRecoveryKey :: "string \<Rightarrow> error option"
  env_storeSessionBackupPrivateKey :: "error option"
  env_checkKeyBackupAndEnable :: "error + bool"
  env_restoreKeyBackup :: "error + int"
  env_getUserDeviceInfo :: "nat \<Rightarrow> error + (string list) option"
  env_getDeviceVerificationStatus :: "string \<Rightarrow> error + bool option"
  env_requestVerification :: "string \<Rightarrow> string \<Rightarrow> error option"


section \<open>The adapter object\<close>

text \<open>
  The fields of \<open>MatrixAdapter\<close> that the verified methods read or write.
  \<open>decryptedObservers\<close> lists the events on which the timeline handler has registered a
  one-shot \<open>Event.decrypted\<close> listener; \<open>trace\<close> is the trace of calls made so far.
\<close>

record adapter =
  client :: "Client option"
  config :: Config
  initialSyncDone :: bool
  verificationHandler :: bool
  pendingEncryptedEvents :: "(string \<times> MatrixEvent) list"
  decryptedObservers :: "MatrixEvent list"
  trace :: "call list"

text \<open>
  A method that only talks to collaborators is a function to a result and the list of
  calls it made; \<open>andThen\<close> sequences two of them (an exception skips the rest), and
  \<open>exec\<close> appends the calls to the adapter's trace.
\<close>

definition andThen ::
  "(error + 'a) \<times> call list \<Rightarrow> ('a \<Rightarrow> (error + 'b) \<times> call list) \<Rightarrow> (error + 'b) \<times> call list" where
  "andThen m f =
     (case m of
        (Inl e, cs) \<Rightarrow> (Inl e, cs)
      | (Inr v, cs) \<Rightarrow> (case f v of (r, cs') \<Rightarrow> (r, cs @ cs')))"

definition exec :: "adapter \<Rightarrow> (error + 'a) \<times> call list \<Rightarrow> (error + 'a) \<times> adapter" where
  "exec a m = (fst m, a\<lparr>trace := trace a @ snd m\<rparr>)"

subsection \<open>\<open>sendMessage\<close>\<close>

definition sendMessage :: "env \<Rightarrow> Client option \<Rightarrow> string \<Rightarrow> string \<Rightarrow> (error + unit) \<times> call list" where
  "sendMessage env cl cid txt =
     (case cl of
        None \<Rightarrow> (Inl (Error ''Matrix client not initialized''), [])
      | Some c \<Rightarrow>
          (case env_clientSendMessage env cid txt of
             Some e \<Rightarrow> (Inl e, [SendMessage cid txt])
           | None \<Rightarrow> (Inr (), [SendMessage cid txt])))"

subsection \<open>The text message handler\<close>

definition handleCommand :: "env \<Rightarrow> string \<Rightarrow> (error + string option) \<times> call list" where
  "handleCommand env command =
     (case env_onCommand env of
        None \<Rightarrow> (Inr None, [])
      | Some f \<Rightarrow> (f (trim (drop 1 command)), [OnCommand (trim (drop 1 command))]))"

definition checkAccess :: "env \<Rightarrow> string \<Rightarrow> string \<Rightarrow> string list \<Rightarrow> (error + string) \<times> call list" where
  "checkAccess env uid policy allowed =
     (if policy = ''open'' then (Inr ''allowed'', [])
      else (case env_isUserAllowed env uid allowed of
              Inl e \<Rightarrow> (Inl e, [IsUserAllowed uid])
            | Inr ok \<Rightarrow>
                (Inr (if ok then ''allowed''
                      else if policy = ''allowlist'' then ''blocked'' else ''pairing''),
                 [IsUserAllowed uid])))"

definition isDirectMessage :: "Room \<Rightarrow> bool" where
  "isDirectMessage room = (getJoinedMembers room = 2)"

text \<open>The regular expression \<open>^@([^:]+):\<close>: the characters between a leading \<open>@\<close> and the first colon.\<close>

definition extractDisplayName :: "string \<Rightarrow> string" where
  "extractDisplayName uid =
     (case uid of
        [] \<Rightarrow> uid
      | c # rest \<Rightarrow>
          (let local = takeWhile (\<lambda>x. x \<noteq> CHR '':'') rest
           in if c = CHR ''@'' \<and> local \<noteq> [] \<and> length local < length rest then local else uid))"

definition pairingMessage :: "string \<Rightarrow> string" where
  "pairingMessage code =
     ''Hi! This bot requires pairing.'' @ [CHR 0x0A, CHR 0x0A] @
     ''Your code: *'' @ code @ ''*'' @ [CHR 0x0A, CHR 0x0A] @
     ''Ask the owner to run:'' @ [CHR 0x0A] @
     [CHR 0x60] @ ''lettabot pairing approve matrix '' @ code @ [CHR 0x60] @ [CHR 0x0A, CHR 0x0A] @
     ''This code expires in 1 hour.''"

definition buildInboundMessage :: "Room \<Rightarrow> MatrixEvent \<Rightarrow> string \<Rightarrow> string \<Rightarrow> InboundMessage" where
  "buildInboundMessage room event sender b =
     \<lparr> channel = ''matrix'',
       chatId = roomId room,
       userId = sender,
       userName = extractDisplayName sender,
       userHandle = sender,
       messageId = (if falsy (getId event) then None else getId event),
       msg_text = b,
       timestamp = getTs event,
       isGroup = (\<not> isDirectMessage room),
       groupName = (if isDirectMessage room then None else Some (roomName room)) \<rparr>"

text \<open>The part of \<open>handleTextMessage\<close> from the access check on.\<close>

definition handleTextMessage_access ::
  "env \<Rightarrow> Client option \<Rightarrow> Room \<Rightarrow> MatrixEvent \<Rightarrow> Config \<Rightarrow> string \<Rightarrow> string
     \<Rightarrow> (error + InboundMessage option) \<times> call list" where
  "handleTextMessage_access env cl room event cfg sender b =
     andThen (checkAccess env sender (dmPolicy cfg) (allowedUsers cfg)) (\<lambda>access.
       if access = ''blocked'' then
         andThen (sendMessage env cl (roomId room) ''Sorry, you're not authorized to use this bot.'')
           (\<lambda>_. (Inr None, []))
       else if access = ''pairing'' then
         andThen (case env_upsertPairingRequest env sender of
                    Inl e \<Rightarrow> (Inl e, [UpsertPairingRequest sender])
                  | Inr r \<Rightarrow> (Inr r, [UpsertPairingRequest sender]))
           (\<lambda>(code, created).
              (case code of
                 None \<Rightarrow>
                   andThen (sendMessage env cl (roomId room)
                              ''Too many pending pairing requests. Please try again later.'')
                     (\<lambda>_. (Inr None, []))
               | Some cd \<Rightarrow>
                   if cd = [] then
                     andThen (sendMessage env cl (roomId room)
                                ''Too many pending pairing requests. Please try again later.'')
                       (\<lambda>_. (Inr None, []))
                   else if created then
                     andThen (sendMessage env cl (roomId room) (pairingMessage cd))
                       (\<lambda>_. (Inr None, []))
                   else (Inr None, [])))
       else (Inr (Some (buildInboundMessage room event sender b)), []))"

definition handleTextMessage ::
  "env \<Rightarrow> Client option \<Rightarrow> Room \<Rightarrow> MatrixEvent \<Rightarrow> string \<Rightarrow> Config
     \<Rightarrow> (error + InboundMessage option) \<times> call list" where
  "handleTextMessage env cl room event ourUserId cfg =
     (case getSender event of
        None \<Rightarrow> (Inr None, [])
      | Some sender \<Rightarrow>
          (case body (getContent event) of
             None \<Rightarrow> (Inr None, [])
           | Some b \<Rightarrow>
               if sender = [] \<or> b = [] then (Inr None, [])
               else if sender = ourUserId then (Inr None, [])
               else if \<not> selfChatMode cfg \<and> sender = ourUserId then (Inr None, [])
               else if startsWith b ''/'' then
                 andThen (handleCommand env b) (\<lambda>result.
                   if falsy result then handleTextMessage_access env cl room event cfg sender b
                   else (case result of
                           None \<Rightarrow> (Inr None, [])
                         | Some txt \<Rightarrow>
                             andThen (sendMessage env cl (roomId room) txt) (\<lambda>_. (Inr None, []))))
               else handleTextMessage_access env cl room event cfg sender b))"

subsection \<open>\<open>handleMessageEvent\<close>\<close>

definition deliver :: "env \<Rightarrow> InboundMessage \<Rightarrow> (error + unit) \<times> call list" where
  "deliver env m =
     (case env_onMessage env of
        None \<Rightarrow> (Inr (), [])
      | Some f \<Rightarrow> (case f m of Some e \<Rightarrow> (Inl e, [OnMessage m]) | None \<Rightarrow> (Inr (), [OnMessage m])))"

definition handleAudioMessage :: "env \<Rightarrow> adapter \<Rightarrow> MatrixEvent \<Rightarrow> Room \<Rightarrow> (error + unit) \<times> call list" where
  "handleAudioMessage env a event room =
     (case client a of
        None \<Rightarrow> (Inr (), [])
      | Some c \<Rightarrow>
          if falsy (getUserId c) then (Inr (), [])
          else andThen (case env_handleAudioMessage env event room of
                          Inl e \<Rightarrow> (Inl e, [HandleAudioMessage event room])
                        | Inr r \<Rightarrow> (Inr r, [HandleAudioMessage event room]))
                 (\<lambda>result. case result of None \<Rightarrow> (Inr (), []) | Some m \<Rightarrow> deliver env m))"

definition handleImageMessage :: "env \<Rightarrow> adapter \<Rightarrow> MatrixEvent \<Rightarrow> Room \<Rightarrow> (error + unit) \<times> call list" where
  "handleImageMessage env a event room =
     (case client a of
        None \<Rightarrow> (Inr (), [])
      | Some c \<Rightarrow>
          if falsy (getUserId c) then (Inr (), [])
          else (case env_handleImageMessage env event room of
                  Some e \<Rightarrow> (Inl e, [HandleImageMessage event room])
                | None \<Rightarrow> (Inr (), [HandleImageMessage event room])))"

text \<open>
  \<open>this.client!.getUserId()\<close> on a null client is a TypeError.  The first call of the
  trace records the entry into the method.
\<close>

definition handleMessageEvent :: "env \<Rightarrow> adapter \<Rightarrow> MatrixEvent \<Rightarrow> Room \<Rightarrow> (error + unit) \<times> call list" where
  "handleMessageEvent env a event room =
     andThen (Inr (), [HandleMessageEvent event room]) (\<lambda>_.
       let content = (case getClearContent event of Some cc \<Rightarrow> cc | None \<Rightarrow> getContent event);
           mt = msgtype content
       in (case client a of
             None \<Rightarrow> (Inl (Error ''TypeError: Cannot read properties of null''), [])
           | Some c \<Rightarrow>
               (case getUserId c of
                  None \<Rightarrow> (Inr (), [])
                | Some ourUserId \<Rightarrow>
                    if ourUserId = [] then (Inr (), [])
                    else if mt = Some ''m.text'' \<or> mt = Some ''m.notice'' then
                      andThen (handleTextMessage env (client a) room event ourUserId (config a))
                        (\<lambda>result. case result of None \<Rightarrow> (Inr (), []) | Some m \<Rightarrow> deliver env m)
                    else if mt = Some ''m.audio'' then handleAudioMessage env a event room
                    else if mt = Some ''m.image'' then handleImageMessage env a event room
                    else (Inr (), []))))"


section \<open>The decrypt retry pipeline\<close>

text \<open>
  Each \<open>async\<close> method of the adapter is run to its end without another task interleaving
  at its \<open>await\<close>s; \<open>Date.now()\<close> is the parameter \<open>now\<close>, in milliseconds.
\<close>

definition maxAge :: int where
  "maxAge = 5 * 60 * 1000"

text \<open>The body of the retry loop: one entry of the snapshot.\<close>

definition retryOne :: "env \<Rightarrow> string \<times> MatrixEvent \<Rightarrow> adapter \<Rightarrow> adapter" where
  "retryOne env e a =
     (case e of (eventId, event) \<Rightarrow>
        (case getClearContent event of
           Some clearContent \<Rightarrow>
             (case client a of
                None \<Rightarrow>
                  a\<lparr>pendingEncryptedEvents := map_set (pendingEncryptedEvents a) eventId event\<rparr>
              | Some c \<Rightarrow>
                  (case getRoom c (getRoomId event) of
                     None \<Rightarrow> a
                   | Some room \<Rightarrow>
                       (case exec a (handleMessageEvent env a event room) of
                          (Inr u, a') \<Rightarrow> a'
                        | (Inl err, a') \<Rightarrow>
                            a'\<lparr>pendingEncryptedEvents :=
                                  map_set (pendingEncryptedEvents a') eventId event\<rparr>)))
         | None \<Rightarrow>
             a\<lparr>pendingEncryptedEvents := map_set (pendingEncryptedEvents a) eventId event\<rparr>))"

fun retryLoop :: "env \<Rightarrow> (string \<times> MatrixEvent) list \<Rightarrow> adapter \<Rightarrow> adapter" where
  "retryLoop env [] a = a"
| "retryLoop env (e # es) a = retryLoop env es (retryOne env e a)"

definition cleanupOne :: "int \<Rightarrow> string \<times> MatrixEvent \<Rightarrow> adapter \<Rightarrow> adapter" where
  "cleanupOne now e a =
     (case e of (eventId, event) \<Rightarrow>
        if now - getTs event > maxAge
        then a\<lparr>pendingEncryptedEvents := map_delete (pendingEncryptedEvents a) eventId\<rparr>
        else a)"

fun cleanupLoop :: "int \<Rightarrow> (string \<times> MatrixEvent) list \<Rightarrow> adapter \<Rightarrow> adapter" where
  "cleanupLoop now [] a = a"
| "cleanupLoop now (e # es) a = cleanupLoop now es (cleanupOne now e a)"

text \<open>The snapshot, the clearing of the live map and the retry loop.\<close>

definition retrySnapshot :: "env \<Rightarrow> adapter \<Rightarrow> adapter" where
  "retrySnapshot env a =
     (let eventsToRetry = pendingEncryptedEvents a
      in retryLoop env eventsToRetry (a\<lparr>pendingEncryptedEvents := []\<rparr>))"

definition retryPendingDecryptions :: "env \<Rightarrow> int \<Rightarrow> adapter \<Rightarrow> adapter" where
  "retryPendingDecryptions env now a0 =
     (let a = a0\<lparr>trace := trace a0 @ [RetryPendingDecryptions]\<rparr>
      in if client a = None \<or> pendingEncryptedEvents a = [] then a
         else (let a1 = retrySnapshot env a
               in cleanupLoop now (pendingEncryptedEvents a1) a1))"

subsection \<open>\<open>requestRoomKey\<close>\<close>

text \<open>A failure of the key request is caught inside the method.\<close>

definition requestRoomKey :: "env \<Rightarrow> adapter \<Rightarrow> MatrixEvent \<Rightarrow> (error + unit) \<times> call list" where
  "requestRoomKey env a event =
     (case client a of
        None \<Rightarrow> (Inr (), [])
      | Some c \<Rightarrow>
          (case (sender_key (getContent event), session_id (getContent event), getRoomId event) of
             (Some sk, Some sid, Some rid) \<Rightarrow>
               if sk = [] \<or> sid = [] \<or> rid = [] then (Inr (), [])
               else (case env_requestRoomKey env event of
                       Some err \<Rightarrow> (Inr (), [RequestRoomKey rid sk sid])
                     | None \<Rightarrow> (Inr (), [RequestRoomKey rid sk sid]))
           | _ \<Rightarrow> (Inr (), [])))"

section \<open>The timeline event handler\<close>

text \<open>\<open>event.getSender() === this.client?.getUserId()\<close>: \<open>undefined\<close> on a null client, \<open>null\<close> or a string otherwise.\<close>

definition senderIsOwn :: "adapter \<Rightarrow> MatrixEvent \<Rightarrow> bool" where
  "senderIsOwn a event =
     (case client a of
        None \<Rightarrow> getSender event = None
      | Some c \<Rightarrow> (case getUserId c of None \<Rightarrow> False | Some u \<Rightarrow> getSender event = Some u))"

definition handleReaction :: "env \<Rightarrow> adapter \<Rightarrow> MatrixEvent \<Rightarrow> (error + unit) \<times> call list" where
  "handleReaction env a event =
     (case client a of
        None \<Rightarrow> (Inl (Error ''TypeError: Cannot read properties of null''), [])
      | Some c \<Rightarrow>
          (case env_handleReactionEvent env event of
             Some err \<Rightarrow> (Inl err, [HandleReactionEvent event])
           | None \<Rightarrow> (Inr (), [HandleReactionEvent event])))"

text \<open>The body of the \<open>try\<close> block of the handler, and its \<open>catch\<close>.\<close>

definition timelineDispatch ::
  "env \<Rightarrow> int \<Rightarrow> string \<Rightarrow> MatrixEvent \<Rightarrow> Room \<Rightarrow> adapter \<Rightarrow> (error + unit) \<times> adapter" where
  "timelineDispatch env now eventType event room a =
     (if eventType = ''m.key.verification.request'' then (Inr (), a)
      else if eventType = ''m.room_key'' \<or> eventType = ''m.forwarded_room_key''
        then (Inr (), retryPendingDecryptions env now a)
      else if eventType = ''m.room.message'' then exec a (handleMessageEvent env a event room)
      else if eventType = ''m.reaction'' then exec a (handleReaction env a event)
      else (Inr (), a))"

definition catchAll :: "(error + unit) \<times> adapter \<Rightarrow> (error + unit) \<times> adapter" where
  "catchAll r = (Inr (), snd r)"

definition timelineHandler ::
  "env \<Rightarrow> int \<Rightarrow> MatrixEvent \<Rightarrow> Room option \<Rightarrow> bool \<Rightarrow> adapter \<Rightarrow> (error + unit) \<times> adapter" where
  "timelineHandler env now event room toStartOfTimeline a =
     (if getType event \<noteq> ''m.room.encrypted'' \<and> (toStartOfTimeline \<or> \<not> initialSyncDone a)
        then (Inr (), a)
      else if senderIsOwn a event then (Inr (), a)
      else (case room of
              None \<Rightarrow> (Inr (), a)
            | Some r \<Rightarrow>
                if getType event = ''m.room.encrypted'' then
                  (case getClearContent event of
                     Some clearContent \<Rightarrow>
                       catchAll (timelineDispatch env now ''m.room.message'' event r a)
                   | None \<Rightarrow>
                       (Inr (),
                        snd (exec (a\<lparr>decryptedObservers := decryptedObservers a @ [event]\<rparr>)
                               (requestRoomKey env a event))))
                else catchAll (timelineDispatch env now (getType event) event r a)))"

text \<open>
  The listener that the handler registers with \<open>event.once("Event.decrypted", ...)\<close>, run
  on the event as it is when the SDK has decrypted it.  Its body has no \<open>try\<close>.
\<close>

definition onEventDecrypted :: "env \<Rightarrow> MatrixEvent \<Rightarrow> adapter \<Rightarrow> (error + unit) \<times> adapter" where
  "onEventDecrypted env decryptedEvent a =
     (case getClearContent decryptedEvent of
        None \<Rightarrow> (Inr (), a)
      | Some clearContent \<Rightarrow>
          (case (case client a of None \<Rightarrow> None | Some c \<Rightarrow> getRoom c (getRoomId decryptedEvent)) of
             None \<Rightarrow> (Inr (), a)
           | Some decryptedRoom \<Rightarrow> exec a (handleMessageEvent env a decryptedEvent decryptedRoom)))"


section \<open>Key backup restore\<close>

text \<open>
  \<open>restoreKeysFromBackup\<close>.  The dynamic import and \<open>decodeRecoveryKey\<close> are one
  collaborator call; an exception of theirs reaches the outer \<open>catch\<close>.  A failure of
  \<open>storeSessionBackupPrivateKey\<close>, of \<open>checkKeyBackupAndEnable\<close> or of \<open>restoreKeyBackup\<close> is
  caught by the \<open>try\<close> around that call.
\<close>

definition restoreKeysFromBackup :: "env \<Rightarrow> int \<Rightarrow> adapter \<Rightarrow> adapter" where
  "restoreKeysFromBackup env now a =
     (case client a of
        None \<Rightarrow> a
      | Some c \<Rightarrow>
          (case recoveryKey (config a) of
             None \<Rightarrow> a
           | Some rk \<Rightarrow>
               if rk = [] then a
               else if \<not> getCrypto c then a
               else (case env_decodeRecoveryKey env rk of
                       Some err \<Rightarrow> a
                     | None \<Rightarrow>
                         (let a1 = a\<lparr>trace := trace a @ [StoreSessionBackupPrivateKey]\<rparr>;
                              a2 = a1\<lparr>trace := trace a1 @ [CheckKeyBackupAndEnable]\<rparr>;
                              a3 = (case env_checkKeyBackupAndEnable env of
                                      Inl backupCheckErr \<Rightarrow> a2
                                    | Inr backupInfo \<Rightarrow>
                                        if backupInfo then
                                          (let a' = a2\<lparr>trace := trace a2 @ [RestoreKeyBackup]\<rparr>
                                           in (case env_restoreKeyBackup env of
                                                 Inl restoreErr \<Rightarrow> a'
                                               | Inr imported \<Rightarrow>
                                                   if imported > 0
                                                   then retryPendingDecryptions env now a'
                                                   else a'))
                                        else a2)
                          in a3\<lparr>trace := trace a3 @ [Sleep 2000]\<rparr>))))"

section \<open>Proactive verification\<close>

definition requestDeviceVerification ::
  "env \<Rightarrow> adapter \<Rightarrow> string \<Rightarrow> string \<Rightarrow> (error + unit) \<times> call list" where
  "requestDeviceVerification env a uid did =
     (if \<not> verificationHandler a then (Inl (Error ''Verification handler not initialized''), [])
      else (case env_requestVerification env uid did of
              Some e \<Rightarrow> (Inl e, [RequestDeviceVerification uid did])
            | None \<Rightarrow> (Inr (), [RequestDeviceVerification uid did])))"

definition maxRetries :: nat where
  "maxRetries = 5"

text \<open>
  The \<open>while (retryCount < maxRetries)\<close> loop.  The answer of the \<open>retryCount\<close>-th fetch
  is \<open>env_getUserDeviceInfo env retryCount\<close>: an exception, \<open>undefined\<close>, or the device ids
  of the user's device map in iteration order.
\<close>

function fetchDeviceList ::
  "env \<Rightarrow> string \<Rightarrow> nat \<Rightarrow> string list option \<Rightarrow> (error + string list option) \<times> call list" where
  "fetchDeviceList env uid retryCount userDevices =
     (if retryCount < maxRetries then
        (case env_getUserDeviceInfo env retryCount of
           Inl e \<Rightarrow> (Inl e, [GetUserDeviceInfo uid])
         | Inr devs \<Rightarrow>
             if devs = None \<or> devs = Some [] then
               (case fetchDeviceList env uid (Suc retryCount) devs of
                  (r, cs) \<Rightarrow> (r, [GetUserDeviceInfo uid, Sleep 3000] @ cs))
             else (Inr devs, [GetUserDeviceInfo uid]))
      else (Inr userDevices, []))"
  by pat_completeness auto
termination
  by (relation "measure (\<lambda>(env, uid, retryCount, userDevices). maxRetries - retryCount)") auto

declare fetchDeviceList.simps [simp del]

text \<open>The loop over the device map; a failed request is caught inside the loop.\<close>

fun verifyDevices ::
  "env \<Rightarrow> adapter \<Rightarrow> string \<Rightarrow> string option \<Rightarrow> string list \<Rightarrow> (error + unit) \<times> call list" where
  "verifyDevices env a uid ownDeviceId [] = (Inr (), [])"
| "verifyDevices env a uid ownDeviceId (deviceId # rest) =
     (if Some deviceId = ownDeviceId then verifyDevices env a uid ownDeviceId rest
      else (case env_getDeviceVerificationStatus env deviceId of
              Inl e \<Rightarrow> (Inl e, [GetDeviceVerificationStatus uid deviceId])
            | Inr status \<Rightarrow>
                if status = Some True then
                  (case verifyDevices env a uid ownDeviceId rest of
                     (r, cs) \<Rightarrow> (r, [GetDeviceVerificationStatus uid deviceId] @ cs))
                else
                  (case verifyDevices env a uid ownDeviceId rest of
                     (r, cs) \<Rightarrow>
                       (r, [GetDeviceVerificationStatus uid deviceId]
                           @ snd (requestDeviceVerification env a uid deviceId) @ cs))))"

text \<open>Device discovery: from the fetch loop to the end of the \<open>try\<close> block.\<close>

definition discoverAndVerify :: "env \<Rightarrow> adapter \<Rightarrow> string \<Rightarrow> string option \<Rightarrow> (error + unit) \<times> call list" where
  "discoverAndVerify env a uid ownDeviceId =
     andThen (fetchDeviceList env uid 0 None) (\<lambda>userDevices.
       case userDevices of
         None \<Rightarrow> (Inr (), [])
       | Some ds \<Rightarrow> if ds = [] then (Inr (), []) else verifyDevices env a uid ownDeviceId ds)"

definition initiateProactiveVerification :: "env \<Rightarrow> adapter \<Rightarrow> adapter" where
  "initiateProactiveVerification env a =
     (case client a of
        None \<Rightarrow> a
      | Some c \<Rightarrow>
          if \<not> verificationHandler a then a
          else if \<not> getCrypto c then a
          else if falsy (getUserId c) then a
          else (case getUserId c of
                  None \<Rightarrow> a
                | Some uid \<Rightarrow>
                    (let ownDeviceId = getDeviceId c
                     in if \<not> falsy (userDeviceId (config a))
                           \<and> \<not> falsy (map_option trim (userDeviceId (config a)))
                        then
                          (case map_option trim (userDeviceId (config a)) of
                             None \<Rightarrow> a
                           | Some targetDeviceId \<Rightarrow>
                               if Some targetDeviceId = ownDeviceId then a
                               else (case requestDeviceVerification env a uid targetDeviceId of
                                       (Inr u, cs) \<Rightarrow> a\<lparr>trace := trace a @ cs\<rparr>
                                     | (Inl err, cs) \<Rightarrow>
                                         snd (exec (a\<lparr>trace := trace a @ cs\<rparr>)
                                                (discoverAndVerify env a uid ownDeviceId))))
                        else snd (exec a (discoverAndVerify env a uid ownDeviceId)))))"

section \<open>Reading the trace\<close>

text \<open>The events handed to \<open>handleMessageEvent\<close>, the messages given to \<open>onMessage\<close>, and
  the verification requests issued, in the order of the trace.\<close>

fun dispatched :: "call list \<Rightarrow> (MatrixEvent \<times> Room) list" where
  "dispatched [] = []"
| "dispatched (HandleMessageEvent e r # cs) = (e, r) # dispatched cs"
| "dispatched (c # cs) = dispatched cs"




fun sweeps :: "call list \<Rightarrow> nat" where
  "sweeps [] = 0"
| "sweeps (RetryPendingDecryptions # cs) = Suc (sweeps cs)"
| "sweeps (c # cs) = sweeps cs"


section \<open>The verification handler\<close>

text \<open>
  \<open>MatrixVerificationHandler\<close>.  Verification requests and verifiers are objects of the
  SDK that the handler holds by reference and the SDK mutates: a reference is a number,
  and the SDK's objects are the store \<open>sdk\<close>.  The handler never writes to them.
\<close>

datatype VerificationPhase = Unsent | Requested | Ready | Started | Cancelled | Done

record VerificationRequest =
  otherUserId :: string
  otherDeviceId :: "string option"
  phase :: VerificationPhase
  req_verifier :: "nat option"
  cancellationCode :: "string option"

record ShowSasCallbacks =
  sas_emoji :: "(string \<times> string) list option"

record Verifier =
  getShowSasCallbacks :: "ShowSasCallbacks option"

record sdk =
  requests :: "nat \<Rightarrow> VerificationRequest"
  verifiers :: "nat \<Rightarrow> Verifier"
  hasCrypto :: bool

text \<open>
  \<open>sasCallbacks\<close> holds the callbacks object of a verifier, named by that verifier's
  reference; \<open>SdkConfirm v\<close> below is the call of its \<open>confirm()\<close>.
\<close>

record ActiveVerification =
  av_userId :: string
  av_deviceId :: string
  verifier :: "nat option"
  request :: nat
  sasCallbacks :: "nat option"

text \<open>
  What the handler does to the outside: calls into the SDK and the four callbacks.
  Each is recorded with the time at which it happens.
\<close>

datatype effect =
    SdkAccept nat
  | SdkFetchDeviceKeys string
  | SdkStartVerification nat
  | SdkVerify nat
  | SdkConfirm nat
  | SdkRequestDeviceVerification string string
  | CbShowSas "string list"
  | CbComplete
  | CbCancel string
  | CbError error

text \<open>
  The closures the handler registers, each with the variables it captures: listeners on a
  request's \<open>change\<close> event, timers, and the \<open>async\<close> functions suspended at an \<open>await\<close>.
  Every closure gets a fresh identifier, so that \<open>request.off\<close> removes that closure only.
\<close>

datatype listener =
    OnChange nat string
  | OnRequestChange nat string
  | OnReadyOrStarted nat string

datatype timer =
    ReadyPoll nat nat string
  | Settle nat string
  | AutoConfirm string

datatype task =
    AwaitAccept nat string
  | AwaitDeviceKeys nat string
  | AwaitStartVerification nat string
  | AwaitVerify nat
  | AwaitConfirm nat
  | AwaitRequest string string

datatype outcome = Rejected error | Resolved | ResolvedVerifier "nat option" | ResolvedRequest nat

record handler =
  activeVerifications :: "(string \<times> ActiveVerification) list"
  changeListeners :: "(nat \<times> listener) list"
  verifierListeners :: "(nat \<times> nat \<times> string) list"
  timers :: "(nat \<times> nat \<times> timer) list"
  tasks :: "(nat \<times> task) list"
  nextId :: nat
  effects :: "(nat \<times> effect) list"

definition emit :: "nat \<Rightarrow> effect \<Rightarrow> handler \<Rightarrow> handler" where
  "emit now e h = h\<lparr>effects := effects h @ [(now, e)]\<rparr>"

definition suspend :: "task \<Rightarrow> handler \<Rightarrow> handler" where
  "suspend t h = h\<lparr>tasks := tasks h @ [(nextId h, t)], nextId := Suc (nextId h)\<rparr>"

definition setTimeout :: "nat \<Rightarrow> timer \<Rightarrow> nat \<Rightarrow> handler \<Rightarrow> handler" where
  "setTimeout now t delay h =
     h\<lparr>timers := timers h @ [(nextId h, now + delay, t)], nextId := Suc (nextId h)\<rparr>"

definition off :: "nat \<Rightarrow> handler \<Rightarrow> handler" where
  "off i h = h\<lparr>changeListeners := filter (\<lambda>l. fst l \<noteq> i) (changeListeners h)\<rparr>"

definition verificationKey :: "string \<Rightarrow> string \<Rightarrow> string" where
  "verificationKey u d = u @ ''|'' @ d"

subsection \<open>\<open>attachVerifierListeners\<close> and \<open>confirmVerification\<close>\<close>

text \<open>
  One entry of \<open>verifierListeners\<close> stands for the \<open>show_sas\<close> and the \<open>cancel\<close> listener
  that \<open>attachVerifierListeners\<close> puts on the verifier together.
\<close>

definition attachVerifierListeners :: "nat \<Rightarrow> nat \<Rightarrow> string \<Rightarrow> handler \<Rightarrow> handler" where
  "attachVerifierListeners v req key h =
     h\<lparr>verifierListeners := verifierListeners h @ [(nextId h, v, key)],
       changeListeners := changeListeners h @ [(Suc (nextId h), OnRequestChange req key)],
       nextId := Suc (Suc (nextId h))\<rparr>"

definition confirmVerification :: "nat \<Rightarrow> string \<Rightarrow> handler \<Rightarrow> handler" where
  "confirmVerification now key h =
     (case map_get (activeVerifications h) key of
        None \<Rightarrow> h
      | Some stored \<Rightarrow>
          (case sasCallbacks stored of
             None \<Rightarrow> h
           | Some v \<Rightarrow> suspend (AwaitConfirm v) (emit now (SdkConfirm v) h)))"

text \<open>The \<open>show_sas\<close> listener; \<open>sas\<close> tells whether the event's argument is truthy.\<close>

definition onShowSas :: "sdk \<Rightarrow> nat \<Rightarrow> bool \<Rightarrow> nat \<Rightarrow> string \<Rightarrow> handler \<Rightarrow> handler" where
  "onShowSas s now sas v key h =
     (if \<not> sas then h
      else (case getShowSasCallbacks (verifiers s v) of
              None \<Rightarrow> h
            | Some sasData \<Rightarrow>
                (case sas_emoji sasData of
                   None \<Rightarrow> h
                 | Some emoji \<Rightarrow>
                     (let emojis = map (\<lambda>e. fst e @ '' '' @ snd e) emoji;
                          h1 = (case map_get (activeVerifications h) key of
                                  None \<Rightarrow> h
                                | Some stored \<Rightarrow>
                                    h\<lparr>activeVerifications :=
                                        map_set (activeVerifications h) key
                                          (stored\<lparr>sasCallbacks := Some v\<rparr>)\<rparr>)
                      in setTimeout now (AutoConfirm key) 5000 (emit now (CbShowSas emojis) h1)))))"

text \<open>The \<open>cancel\<close> listener; its argument is an \<open>Error\<close> with a message, or an event.\<close>

definition onCancel :: "nat \<Rightarrow> string option \<Rightarrow> string \<Rightarrow> handler \<Rightarrow> handler" where
  "onCancel now err key h =
     emit now (CbCancel (case err of Some message \<Rightarrow> message | None \<Rightarrow> ''Verification cancelled''))
       (h\<lparr>activeVerifications := map_delete (activeVerifications h) key\<rparr>)"

definition onRequestChange :: "sdk \<Rightarrow> nat \<Rightarrow> nat \<Rightarrow> string \<Rightarrow> handler \<Rightarrow> handler" where
  "onRequestChange s now req key h =
     (if phase (requests s req) = Done then
        emit now CbComplete (h\<lparr>activeVerifications := map_delete (activeVerifications h) key\<rparr>)
      else if phase (requests s req) = Cancelled then
        emit now (CbCancel (case cancellationCode (requests s req) of
                              None \<Rightarrow> ''Unknown''
                            | Some code \<Rightarrow> if code = [] then ''Unknown'' else code))
          (h\<lparr>activeVerifications := map_delete (activeVerifications h) key\<rparr>)
      else h)"

subsection \<open>\<open>startSASVerification\<close>\<close>

text \<open>
  The function in its four segments: up to the device key fetch, the 500 ms delay after
  it, from the verifier check to \<open>request.startVerification\<close>, and from its result to
  \<open>verifier.verify()\<close>.  A rejection at any \<open>await\<close> goes to the \<open>catch\<close>, which calls \<open>onError\<close>.
\<close>

definition startSAS_afterKeys :: "sdk \<Rightarrow> nat \<Rightarrow> nat \<Rightarrow> string \<Rightarrow> handler \<Rightarrow> handler" where
  "startSAS_afterKeys s now req key h =
     (case req_verifier (requests s req) of
        Some existingVerifier \<Rightarrow> attachVerifierListeners existingVerifier req key h
      | None \<Rightarrow> suspend (AwaitStartVerification req key) (emit now (SdkStartVerification req) h))"

definition startSASVerification :: "sdk \<Rightarrow> nat \<Rightarrow> nat \<Rightarrow> string \<Rightarrow> handler \<Rightarrow> handler" where
  "startSASVerification s now req key h =
     (if hasCrypto s \<and> otherUserId (requests s req) \<noteq> [] then
        suspend (AwaitDeviceKeys req key)
          (emit now (SdkFetchDeviceKeys (otherUserId (requests s req))) h)
      else startSAS_afterKeys s now req key h)"

definition startSAS_started :: "nat \<Rightarrow> nat option \<Rightarrow> nat \<Rightarrow> string \<Rightarrow> handler \<Rightarrow> handler" where
  "startSAS_started now result req key h =
     (case result of
        None \<Rightarrow> emit now (CbError (Error ''startVerification returned undefined'')) h
      | Some v \<Rightarrow>
          (let h1 = (case map_get (activeVerifications h) key of
                       None \<Rightarrow> h
                     | Some stored \<Rightarrow>
                         h\<lparr>activeVerifications :=
                             map_set (activeVerifications h) key (stored\<lparr>verifier := Some v\<rparr>)\<rparr>)
           in suspend (AwaitVerify v) (emit now (SdkVerify v) (attachVerifierListeners v req key h1))))"

subsection \<open>\<open>acceptAndStartSAS\<close>\<close>

definition acceptAndStartSAS :: "nat \<Rightarrow> nat \<Rightarrow> string \<Rightarrow> handler \<Rightarrow> handler" where
  "acceptAndStartSAS now req key h = suspend (AwaitAccept req key) (emit now (SdkAccept req) h)"

text \<open>After \<open>await request.accept()\<close> has resolved.\<close>

definition acceptAndStartSAS_accepted :: "sdk \<Rightarrow> nat \<Rightarrow> nat \<Rightarrow> string \<Rightarrow> handler \<Rightarrow> handler" where
  "acceptAndStartSAS_accepted s now req key h =
     (if phase (requests s req) = Ready then startSASVerification s now req key h
      else (let i = nextId h;
                h1 = h\<lparr>changeListeners := changeListeners h @ [(i, OnChange req key)],
                        nextId := Suc i\<rparr>
            in setTimeout now (ReadyPoll i req key) 1000 h1))"

text \<open>The closure \<open>onChange\<close>, registered under the identifier \<open>i\<close>.\<close>

definition onChange :: "sdk \<Rightarrow> nat \<Rightarrow> nat \<Rightarrow> nat \<Rightarrow> string \<Rightarrow> handler \<Rightarrow> handler" where
  "onChange s now i req key h =
     (if phase (requests s req) = Ready then startSASVerification s now req key (off i h)
      else if phase (requests s req) = Done then off i h
      else h)"

text \<open>The callback of the one second timer.\<close>

definition readyPoll :: "sdk \<Rightarrow> nat \<Rightarrow> nat \<Rightarrow> nat \<Rightarrow> string \<Rightarrow> handler \<Rightarrow> handler" where
  "readyPoll s now i req key h =
     (if phase (requests s req) = Ready then startSASVerification s now req key (off i h)
      else h)"

subsection \<open>\<open>handleVerificationRequest\<close>\<close>

text \<open>
  \<open>request.otherDeviceId || "unknown"\<close>, the key of the map, and the entry stored for a
  new request.
\<close>

definition deviceOf :: "VerificationRequest \<Rightarrow> string" where
  "deviceOf r = (case otherDeviceId r of None \<Rightarrow> ''unknown'' | Some d \<Rightarrow> if d = [] then ''unknown'' else d)"

definition keyOf :: "VerificationRequest \<Rightarrow> string" where
  "keyOf r = verificationKey (otherUserId r) (deviceOf r)"

definition newVerification :: "nat \<Rightarrow> VerificationRequest \<Rightarrow> ActiveVerification" where
  "newVerification req r =
     \<lparr> av_userId = otherUserId r, av_deviceId = deviceOf r, verifier = None, request = req,
       sasCallbacks = None \<rparr>"

text \<open>From the store of the request to the end of the method.\<close>

definition storeAndStart :: "sdk \<Rightarrow> nat \<Rightarrow> nat \<Rightarrow> handler \<Rightarrow> handler" where
  "storeAndStart s now req h =
     (let r = requests s req;
          key = keyOf r;
          h1 = h\<lparr>activeVerifications :=
                  map_set (activeVerifications h) key (newVerification req r)\<rparr>
      in if phase r = Requested then acceptAndStartSAS now req key h1
         else if phase r = Ready then startSASVerification s now req key h1
         else if phase r = Started then
           (case req_verifier r of
              Some v \<Rightarrow> attachVerifierListeners v req key h1
            | None \<Rightarrow> h1)
         else h1)"

definition handleVerificationRequest :: "sdk \<Rightarrow> nat \<Rightarrow> nat \<Rightarrow> handler \<Rightarrow> handler" where
  "handleVerificationRequest s now req h =
     (let r = requests s req;
          key = keyOf r
      in (case map_get (activeVerifications h) key of
            None \<Rightarrow> storeAndStart s now req h
          | Some existing \<Rightarrow>
              if phase (requests s (request existing)) = Cancelled
                 \<or> phase (requests s (request existing)) = Done
              then storeAndStart s now req
                     (h\<lparr>activeVerifications := map_delete (activeVerifications h) key\<rparr>)
              else if phase r = Requested
              then storeAndStart s now req
                     (h\<lparr>activeVerifications := map_delete (activeVerifications h) key\<rparr>)
              else h))"

subsection \<open>\<open>requestVerification\<close> and \<open>dispose\<close>\<close>

text \<open>After \<open>await crypto.requestDeviceVerification(userId, deviceId)\<close> has resolved to \<open>req\<close>.\<close>

definition requestVerification_requested :: "string \<Rightarrow> string \<Rightarrow> nat \<Rightarrow> handler \<Rightarrow> handler" where
  "requestVerification_requested uid did req h =
     (let key = verificationKey uid did;
          h1 = h\<lparr>activeVerifications :=
                  map_set (activeVerifications h) key
                    \<lparr>av_userId = uid, av_deviceId = did, verifier = None, request = req,
                     sasCallbacks = None\<rparr>\<rparr>
      in h1\<lparr>changeListeners := changeListeners h1 @ [(nextId h1, OnReadyOrStarted req key)],
            nextId := Suc (nextId h1)\<rparr>)"

definition onReadyOrStarted :: "sdk \<Rightarrow> nat \<Rightarrow> nat \<Rightarrow> nat \<Rightarrow> string \<Rightarrow> handler \<Rightarrow> handler" where
  "onReadyOrStarted s now i req key h =
     (if phase (requests s req) = Ready then off i (startSASVerification s now req key h)
      else if phase (requests s req) = Started then
        (case req_verifier (requests s req) of
           Some v \<Rightarrow> off i (attachVerifierListeners v req key h)
         | None \<Rightarrow> h)
      else h)"

definition dispose :: "handler \<Rightarrow> handler" where
  "dispose h = h\<lparr>activeVerifications := []\<rparr>"


subsection \<open>The event loop as seen by the handler\<close>

text \<open>
  The JavaScript event loop runs one callback of the handler at a time, each to its next
  \<open>await\<close> or to its end.  An \<open>event\<close> is one such run, or a change that the SDK makes to
  its own objects, or the passing of time.  A timer fires only when it is due.
\<close>

datatype event =
    VerificationRequestReceived nat
  | RequestVerification string string
  | Settled nat outcome
  | Change nat
  | ShowSas nat bool
  | Cancel nat "string option"
  | Timeout nat
  | Tick nat
  | Dispose
  | SetPhase nat VerificationPhase
  | SetVerifier nat "nat option"
  | SetCancellationCode nat "string option"
  | SetSas nat "ShowSasCallbacks option"

record world =
  sdkOf :: sdk
  handlerOf :: handler
  clock :: nat

definition resume :: "sdk \<Rightarrow> nat \<Rightarrow> task \<Rightarrow> outcome \<Rightarrow> handler \<Rightarrow> handler" where
  "resume s now t out h =
     (case t of
        AwaitAccept req key \<Rightarrow>
          (case out of
             Rejected e \<Rightarrow> emit now (CbError e) h
           | _ \<Rightarrow> acceptAndStartSAS_accepted s now req key h)
      | AwaitDeviceKeys req key \<Rightarrow>
          (case out of
             Rejected e \<Rightarrow> emit now (CbError e) h
           | _ \<Rightarrow> setTimeout now (Settle req key) 500 h)
      | AwaitStartVerification req key \<Rightarrow>
          (case out of
             Rejected e \<Rightarrow> emit now (CbError e) h
           | ResolvedVerifier result \<Rightarrow> startSAS_started now result req key h
           | _ \<Rightarrow> startSAS_started now None req key h)
      | AwaitVerify v \<Rightarrow>
          (case out of Rejected e \<Rightarrow> emit now (CbError e) h | _ \<Rightarrow> h)
      | AwaitConfirm v \<Rightarrow>
          (case out of Rejected e \<Rightarrow> emit now (CbError e) h | _ \<Rightarrow> h)
      | AwaitRequest uid did \<Rightarrow>
          (case out of
             ResolvedRequest req \<Rightarrow> requestVerification_requested uid did req h
           | _ \<Rightarrow> h))"

definition listenerRequest :: "listener \<Rightarrow> nat" where
  "listenerRequest l =
     (case l of OnChange req key \<Rightarrow> req | OnRequestChange req key \<Rightarrow> req
      | OnReadyOrStarted req key \<Rightarrow> req)"

definition runListener :: "sdk \<Rightarrow> nat \<Rightarrow> handler \<Rightarrow> nat \<times> listener \<Rightarrow> handler" where
  "runListener s now h il =
     (case snd il of
        OnChange req key \<Rightarrow> onChange s now (fst il) req key h
      | OnRequestChange req key \<Rightarrow> onRequestChange s now req key h
      | OnReadyOrStarted req key \<Rightarrow> onReadyOrStarted s now (fst il) req key h)"

definition fire :: "sdk \<Rightarrow> nat \<Rightarrow> timer \<Rightarrow> handler \<Rightarrow> handler" where
  "fire s now t h =
     (case t of
        ReadyPoll i req key \<Rightarrow> readyPoll s now i req key h
      | Settle req key \<Rightarrow> startSAS_afterKeys s now req key h
      | AutoConfirm key \<Rightarrow> confirmVerification now key h)"

text \<open>
  An emitter calls the listeners that are registered when the event is emitted, in the
  order of their registration.
\<close>

definition handle :: "sdk \<Rightarrow> nat \<Rightarrow> event \<Rightarrow> handler \<Rightarrow> handler" where
  "handle s now ev h =
     (case ev of
        VerificationRequestReceived req \<Rightarrow> handleVerificationRequest s now req h
      | RequestVerification uid did \<Rightarrow>
          (if hasCrypto s
           then suspend (AwaitRequest uid did) (emit now (SdkRequestDeviceVerification uid did) h)
           else h)
      | Settled i out \<Rightarrow>
          (case map_of (tasks h) i of
             None \<Rightarrow> h
           | Some t \<Rightarrow> resume s now t out (h\<lparr>tasks := filter (\<lambda>x. fst x \<noteq> i) (tasks h)\<rparr>))
      | Change req \<Rightarrow>
          foldl (runListener s now) h
            (filter (\<lambda>il. listenerRequest (snd il) = req) (changeListeners h))
      | ShowSas v sas \<Rightarrow>
          foldl (\<lambda>h' l. onShowSas s now sas v (snd (snd l)) h') h
            (filter (\<lambda>l. fst (snd l) = v) (verifierListeners h))
      | Cancel v err \<Rightarrow>
          foldl (\<lambda>h' l. onCancel now err (snd (snd l)) h') h
            (filter (\<lambda>l. fst (snd l) = v) (verifierListeners h))
      | Timeout i \<Rightarrow>
          (case map_of (timers h) i of
             None \<Rightarrow> h
           | Some dt \<Rightarrow>
               if fst dt \<le> now
               then fire s now (snd dt) (h\<lparr>timers := filter (\<lambda>x. fst x \<noteq> i) (timers h)\<rparr>)
               else h)
      | Dispose \<Rightarrow> dispose h
      | _ \<Rightarrow> h)"

definition sdkStep :: "event \<Rightarrow> sdk \<Rightarrow> sdk" where
  "sdkStep ev s =
     (case ev of
        SetPhase req p \<Rightarrow> s\<lparr>requests := (requests s)(req := (requests s req)\<lparr>phase := p\<rparr>)\<rparr>
      | SetVerifier req v \<Rightarrow>
          s\<lparr>requests := (requests s)(req := (requests s req)\<lparr>req_verifier := v\<rparr>)\<rparr>
      | SetCancellationCode req c \<Rightarrow>
          s\<lparr>requests := (requests s)(req := (requests s req)\<lparr>cancellationCode := c\<rparr>)\<rparr>
      | SetSas v c \<Rightarrow>
          s\<lparr>verifiers := (verifiers s)(v := (verifiers s v)\<lparr>getShowSasCallbacks := c\<rparr>)\<rparr>
      | _ \<Rightarrow> s)"

definition step :: "world \<Rightarrow> event \<Rightarrow> world" where
  "step w ev =
     \<lparr> sdkOf = sdkStep ev (sdkOf w),
       handlerOf = handle (sdkOf w) (clock w) ev (handlerOf w),
       clock = (case ev of Tick n \<Rightarrow> clock w + n | _ \<Rightarrow> clock w) \<rparr>"

definition run :: "world \<Rightarrow> event list \<Rightarrow> world" where
  "run w evs = foldl step w evs"

definition newHandler :: handler where
  "newHandler = \<lparr> activeVerifications = [], changeListeners = [], verifierListeners = [],
                  timers = [], tasks = [], nextId = 0, effects = [] \<rparr>"

text \<open>The calls of \<open>request.startVerification\<close> and of \<open>confirm()\<close> among the effects.\<close>

definition sasStarts :: "handler \<Rightarrow> (nat \<times> effect) list" where
  "sasStarts h = filter (\<lambda>e. case snd e of SdkStartVerification r \<Rightarrow> True | _ \<Rightarrow> False) (effects h)"

definition confirms :: "handler \<Rightarrow> (nat \<times> effect) list" where
  "confirms h = filter (\<lambda>e. case snd e of SdkConfirm v \<Rightarrow> True | _ \<Rightarrow> False) (effects h)"

definition shown :: "handler \<Rightarrow> (nat \<times> effect) list" where
  "shown h = filter (\<lambda>e. case snd e of CbShowSas x \<Rightarrow> True | _ \<Rightarrow> False) (effects h)"


section \<open>What one entry of a sweep does\<close>

text \<open>
  For an entry of the snapshot: the room the retry loop looks up for it, the calls the
  loop makes for it, and whether the loop puts it back into the live map.
\<close>

definition sweepRoom :: "adapter \<Rightarrow> MatrixEvent \<Rightarrow> Room option" where
  "sweepRoom a event =
     (case getClearContent event of
        None \<Rightarrow> None
      | Some cc \<Rightarrow> (case client a of None \<Rightarrow> None | Some c \<Rightarrow> getRoom c (getRoomId event)))"

definition sweepCalls :: "env \<Rightarrow> adapter \<Rightarrow> string \<times> MatrixEvent \<Rightarrow> call list" where
  "sweepCalls env a e =
     (case sweepRoom a (snd e) of
        None \<Rightarrow> []
      | Some room \<Rightarrow> snd (handleMessageEvent env a (snd e) room))"

definition reinserted :: "env \<Rightarrow> adapter \<Rightarrow> string \<times> MatrixEvent \<Rightarrow> bool" where
  "reinserted env a e =
     (case getClearContent (snd e) of
        None \<Rightarrow> True
      | Some cc \<Rightarrow>
          (case client a of
             None \<Rightarrow> True
           | Some c \<Rightarrow>
               (case getRoom c (getRoomId (snd e)) of
                  None \<Rightarrow> False
                | Some room \<Rightarrow> fst (handleMessageEvent env a (snd e) room) \<noteq> Inr ())))"


section \<open>Concrete scenarios\<close>

text \<open>A bot \<open>@bot:hs\<close> on device \<open>BOTDEV\<close>, in one room, with collaborators that all succeed.\<close>

definition room0 :: Room where
  "room0 = \<lparr> roomId = ''!room:hs'', roomName = ''Lobby'', getJoinedMembers = 2 \<rparr>"

definition botClient :: Client where
  "botClient = \<lparr> getUserId = Some ''@bot:hs'', getDeviceId = Some ''BOTDEV'', getCrypto = True,
                  rooms = [(''!room:hs'', room0)] \<rparr>"

definition config0 :: Config where
  "config0 = \<lparr> selfChatMode = True, dmPolicy = ''open'', allowedUsers = [],
                recoveryKey = Some ''EsTc'', userDeviceId = None \<rparr>"

definition adapter0 :: adapter where
  "adapter0 = \<lparr> client = Some botClient, config = config0, initialSyncDone = True,
                 verificationHandler = True, pendingEncryptedEvents = [],
                 decryptedObservers = [], trace = [] \<rparr>"

definition env0 :: env where
  "env0 = \<lparr> env_onMessage = Some (\<lambda>m. None),
             env_onCommand = None,
             env_clientSendMessage = (\<lambda>c t. None),
             env_isUserAllowed = (\<lambda>u l. Inr True),
             env_upsertPairingRequest = (\<lambda>u. Inr (Some ''CODE'', True)),
             env_handleAudioMessage = (\<lambda>e r. Inr None),
             env_handleImageMessage = (\<lambda>e r. None),
             env_handleReactionEvent = (\<lambda>e. None),
             env_requestRoomKey = (\<lambda>e. None),
             env_decodeRecoveryKey = (\<lambda>k. None),
             env_storeSessionBackupPrivateKey = None,
             env_checkKeyBackupAndEnable = Inr True,
             env_restoreKeyBackup = Inr 12,
             env_getUserDeviceInfo =
               (\<lambda>i. if i < 4 then Inr (Some []) else Inr (Some [''D1'', ''D2'', ''BOTDEV''])),
             env_getDeviceVerificationStatus = (\<lambda>d. Inr (Some False)),
             env_requestVerification = (\<lambda>u d. None) \<rparr>"

definition helloContent :: Content where
  "helloContent = \<lparr> msgtype = Some ''m.text'', body = Some ''hello'', sender_key = None,
                     session_id = None, algorithm = None \<rparr>"

definition encryptedContent :: Content where
  "encryptedContent = \<lparr> msgtype = None, body = None, sender_key = Some ''curve25519key'',
                         session_id = Some ''sess1'', algorithm = Some ''m.megolm.v1.aes-sha2'' \<rparr>"

text \<open>A text message that the bot itself has sent.\<close>

definition ownEvent :: MatrixEvent where
  "ownEvent = \<lparr> getId = Some ''$own'', getType = ''m.room.message'', getSender = Some ''@bot:hs'',
                 getRoomId = Some ''!room:hs'', getTs = 1000, getClearContent = None,
                 getContent = helloContent \<rparr>"

text \<open>
  An encrypted event \<open>$E1\<close> from another user, as it is on receipt (no clear content)
  and as it is once the SDK has decrypted it.
\<close>

definition event1 :: MatrixEvent where
  "event1 = \<lparr> getId = Some ''$E1'', getType = ''m.room.encrypted'', getSender = Some ''@alice:hs'',
               getRoomId = Some ''!room:hs'', getTs = 0, getClearContent = None,
               getContent = encryptedContent \<rparr>"

definition event1_decrypted :: MatrixEvent where
  "event1_decrypted = event1\<lparr>getClearContent := Some helloContent, getContent := helloContent\<rparr>"

text \<open>
  A bot with the policy \<open>allowlist\<close>, a pairing store that allows nobody, and a homeserver
  that refuses to send.
\<close>

definition envSendFails :: env where
  "envSendFails = env0\<lparr>env_isUserAllowed := (\<lambda>u l. Inr False),
                        env_clientSendMessage := (\<lambda>c t. Some (Error ''M_LIMIT_EXCEEDED''))\<rparr>"

definition allowlistAdapter :: adapter where
  "allowlistAdapter = adapter0\<lparr>config := config0\<lparr>dmPolicy := ''allowlist''\<rparr>\<rparr>"







subsection \<open>Verification scenarios\<close>

text \<open>
  The sessions that the handler holds for a peer user and device, and the invariant of
  its map: no key twice, and every entry under the key of its own user and device.
\<close>

definition sessions :: "handler \<Rightarrow> string \<Rightarrow> string \<Rightarrow> ActiveVerification list" where
  "sessions h u d =
     map snd (filter (\<lambda>e. av_userId (snd e) = u \<and> av_deviceId (snd e) = d) (activeVerifications h))"

definition keyed :: "(string \<times> ActiveVerification) list \<Rightarrow> bool" where
  "keyed m = list_all (\<lambda>e. fst e = verificationKey (av_userId (snd e)) (av_deviceId (snd e))) m"

definition sessionInvariant :: "handler \<Rightarrow> bool" where
  "sessionInvariant h = (wf_map (activeVerifications h) \<and> keyed (activeVerifications h))"

text \<open>
  Every verification request of the scenarios comes from device \<open>D1\<close> of \<open>@alice:hs\<close> and
  starts in phase \<open>Requested\<close>; no verifier has SAS data yet.
\<close>

definition requestA :: VerificationRequest where
  "requestA = \<lparr> otherUserId = ''@alice:hs'', otherDeviceId = Some ''D1'', phase = Requested,
                 req_verifier = None, cancellationCode = None \<rparr>"

definition sdk0 :: sdk where
  "sdk0 = \<lparr> requests = (\<lambda>r. requestA), verifiers = (\<lambda>v. \<lparr> getShowSasCallbacks = None \<rparr>),
            hasCrypto = True \<rparr>"

definition world0 :: world where
  "world0 = \<lparr> sdkOf = sdk0, handlerOf = newHandler, clock = 0 \<rparr>"

definition sasData :: ShowSasCallbacks where
  "sasData = \<lparr> sas_emoji = Some [(''D'', ''Dog''), (''C'', ''Cat'')] \<rparr>"

text \<open>
  Request 0 is accepted while still in phase \<open>Requested\<close>.  At 600 ms it becomes \<open>Ready\<close>
  and emits \<open>change\<close>; at 1000 ms the poll timer fires.  The two device key fetches
  return, their 500 ms delays pass, and both continuations run before the SDK has
  created a verifier.
\<close>

definition raceTrace :: "event list" where
  "raceTrace =
     [VerificationRequestReceived 0, Settled 0 Resolved, Tick 600,
      SetPhase 0 Ready, Change 0, Tick 400, Timeout 2,
      Settled 3 Resolved, Settled 4 Resolved, Tick 500, Timeout 5, Timeout 6]"

text \<open>
  The same up to the poll timer, with the first device key fetch back at 700 ms.  The
  first continuation runs at 1200 ms and starts the verification; the SDK creates
  verifier 10 and the continuation attaches its listeners.  The second continuation runs
  at 1700 ms and finds the verifier.  The verifier shows its SAS, and five seconds later
  the timers fire.
\<close>

definition raceTraceLate :: "event list" where
  "raceTraceLate =
     [VerificationRequestReceived 0, Settled 0 Resolved, Tick 600,
      SetPhase 0 Ready, Change 0, Tick 100, Settled 3 Resolved, Tick 300, Timeout 2,
      Tick 200, Timeout 4,
      SetVerifier 0 (Some 10), SetPhase 0 Started, Settled 6 (ResolvedVerifier (Some 10)),
      Settled 5 Resolved, Tick 500, Timeout 10,
      SetSas 10 (Some sasData), ShowSas 10 True,
      Tick 5000, Timeout 13, Timeout 14]"

text \<open>
  Request 0 is accepted and is cancelled by the peer before it becomes \<open>Ready\<close>: its entry
  stays in the map, in a terminal phase.
\<close>

definition staleTrace :: "event list" where
  "staleTrace =
     [VerificationRequestReceived 0, Settled 0 Resolved, SetPhase 0 Cancelled, Change 0]"

text \<open>
  Request 0 runs up to its SAS, shown at 500 ms, and is cancelled by the peer at 1500 ms.
  At 2000 ms the peer sends request 1 for the same device; its SAS is shown at 4500 ms.
  The timer set at 500 ms fires at 5500 ms, the timer set at 4500 ms at 9500 ms.
\<close>

definition reuseTrace :: "event list" where
  "reuseTrace =
     [VerificationRequestReceived 0, SetPhase 0 Ready, Settled 0 Resolved,
      Settled 1 Resolved, Tick 500, Timeout 2,
      SetVerifier 0 (Some 10), SetPhase 0 Started, Settled 3 (ResolvedVerifier (Some 10)),
      SetSas 10 (Some sasData), ShowSas 10 True,
      Tick 1000, SetPhase 0 Cancelled, Cancel 10 (Some ''User cancelled''),
      Tick 500,
      VerificationRequestReceived 1, SetPhase 1 Ready, Settled 8 Resolved,
      Settled 9 Resolved, Tick 500, Timeout 10,
      SetVerifier 1 (Some 11), SetPhase 1 Started, Settled 11 (ResolvedVerifier (Some 11)),
      Tick 2000, SetSas 11 (Some sasData), ShowSas 11 True,
      Tick 1000, Timeout 7,
      Tick 4000, Timeout 15]"

section \<open>Properties of the message path\<close>

lemma dispatched_append: "dispatched (xs @ ys) = dispatched xs @ dispatched ys"
  by (induction xs rule: dispatched.induct) simp_all

lemma andThen_no_dispatch:
  assumes "dispatched (snd m) = []" and "\<And>v. dispatched (snd (f v)) = []"
  shows "dispatched (snd (andThen m f)) = []"
proof (cases m)
  case (Pair r cs)
  show ?thesis
  proof (cases r)
    case (Inl e)
    with Pair assms(1) show ?thesis by (simp add: andThen_def)
  next
    case (Inr v)
    with Pair assms(1) assms(2)[of v] show ?thesis
      by (cases "f v") (simp add: andThen_def dispatched_append)
  qed
qed

lemma sendMessage_no_dispatch: "dispatched (snd (sendMessage env cl cid txt)) = []"
  by (simp add: sendMessage_def split: option.splits)

lemma handleCommand_no_dispatch: "dispatched (snd (handleCommand env b)) = []"
  by (simp add: handleCommand_def split: option.splits)

lemma checkAccess_no_dispatch: "dispatched (snd (checkAccess env u p al)) = []"
  by (simp add: checkAccess_def split: sum.splits)

lemma access_no_dispatch:
  "dispatched (snd (handleTextMessage_access env cl room event cfg sender b)) = []"
  unfolding handleTextMessage_access_def
  by (intro andThen_no_dispatch checkAccess_no_dispatch)
     (auto intro!: andThen_no_dispatch sendMessage_no_dispatch
           split: sum.splits option.splits prod.splits)

lemma handleTextMessage_no_dispatch:
  "dispatched (snd (handleTextMessage env cl room event u cfg)) = []"
  unfolding handleTextMessage_def
  by (auto intro!: andThen_no_dispatch sendMessage_no_dispatch handleCommand_no_dispatch
                   access_no_dispatch
           split: option.splits)

lemma deliver_no_dispatch: "dispatched (snd (deliver env m)) = []"
  by (simp add: deliver_def split: option.splits)

text \<open>A run of \<open>handleMessageEvent\<close> is one entry of \<open>dispatched\<close>.\<close>

lemma handleMessageEvent_dispatched:
  "dispatched (snd (handleMessageEvent env a event room)) = [(event, room)]"
proof -
  have audio: "dispatched (snd (handleAudioMessage env a event room)) = []"
    unfolding handleAudioMessage_def
    by (auto intro!: andThen_no_dispatch deliver_no_dispatch split: option.splits sum.splits)
  have image: "dispatched (snd (handleImageMessage env a event room)) = []"
    unfolding handleImageMessage_def by (auto split: option.splits)
  have tm: "dispatched (snd (andThen (handleTextMessage env cl room event u (config a))
              (\<lambda>result. case result of None \<Rightarrow> (Inr (), []) | Some m \<Rightarrow> deliver env m))) = []"
    for u cl
    by (auto intro!: andThen_no_dispatch handleTextMessage_no_dispatch deliver_no_dispatch
             split: option.splits)
  have snd_andThen: "snd (andThen (Inr v, cs) f) = cs @ snd (f v)" for v :: unit and cs f
    by (simp add: andThen_def split: prod.splits)
  show ?thesis
    unfolding handleMessageEvent_def snd_andThen Let_def
    by (auto simp: dispatched_append audio image tm split: option.splits)
qed

text \<open>\<open>handleMessageEvent\<close> reads the client and the configuration of the adapter only.\<close>

lemma handleMessageEvent_cong:
  "client a = client b \<Longrightarrow> config a = config b \<Longrightarrow>
   handleMessageEvent env a event room = handleMessageEvent env b event room"
  unfolding handleMessageEvent_def handleAudioMessage_def handleImageMessage_def
  by (simp cong: if_cong option.case_cong)

subsection \<open>The bot's own messages\<close>

text \<open>
  Claim C10.  For an event whose sender is the bot's own user id, the timeline handler
  returns with the adapter unchanged: it makes no call, registers no listener and does
  not reach the classification of the event, whatever the event's type and whatever the
  state of the initial sync.  \<open>handleTextMessage\<close>, given such an event, returns \<open>null\<close>
  without making a call.  So \<open>onMessage\<close> is not invoked for the bot's own messages.
\<close>

theorem own_message_not_dispatched:
  assumes "client a = Some c" and "getUserId c = Some u" and "getSender event = Some u"
  shows "timelineHandler env now event room toStartOfTimeline a = (Inr (), a)
       \<and> handleTextMessage env cl r event u cfg = (Inr None, [])"
  using assms
  by (simp add: timelineHandler_def senderIsOwn_def handleTextMessage_def split: option.splits)

theorem own_message_not_dispatched_witness:
  "client adapter0 = Some botClient \<and> getUserId botClient = Some ''@bot:hs''
   \<and> getSender ownEvent = Some ''@bot:hs''
   \<and> timelineHandler env0 2000 ownEvent (Some room0) False adapter0 = (Inr (), adapter0)
   \<and> handleTextMessage env0 (Some botClient) room0 ownEvent ''@bot:hs'' config0 = (Inr None, [])"
proof -
  have c: "client adapter0 = Some botClient" by (simp add: adapter0_def)
  have u: "getUserId botClient = Some ''@bot:hs''" by (simp add: botClient_def)
  have s: "getSender ownEvent = Some ''@bot:hs''" by (simp add: ownEvent_def)
  show ?thesis
    using c u s
      own_message_not_dispatched [OF c u s, of env0 2000 "Some room0" False "Some botClient" room0 config0]
    by simp
qed

subsection \<open>The retry loop and the cleanup, entry by entry\<close>

text \<open>
  What the retry loop and the cleanup do with the entries of a pending map, whatever the
  map holds.
\<close>

lemma sweepCalls_cong:
  "client a = client b \<Longrightarrow> config a = config b \<Longrightarrow> sweepCalls env a = sweepCalls env b"
  by (rule ext) (simp add: sweepCalls_def sweepRoom_def handleMessageEvent_cong [of a b]
                      cong: option.case_cong)

lemma reinserted_cong:
  "client a = client b \<Longrightarrow> config a = config b \<Longrightarrow> reinserted env a = reinserted env b"
  by (rule ext) (simp add: reinserted_def handleMessageEvent_cong [of a b] cong: option.case_cong)

lemma retryOne_eq:
  "retryOne env e a =
     (if reinserted env a e
      then a\<lparr>trace := trace a @ sweepCalls env a e,
             pendingEncryptedEvents := map_set (pendingEncryptedEvents a) (fst e) (snd e)\<rparr>
      else a\<lparr>trace := trace a @ sweepCalls env a e\<rparr>)"
  by (cases e)
     (auto simp: retryOne_def reinserted_def sweepCalls_def sweepRoom_def exec_def
           split: option.splits prod.splits sum.splits)

lemma map_set_fresh: "\<not> map_has m k \<Longrightarrow> map_set m k v = m @ [(k, v)]"
  by (simp add: map_set_def)

lemma retryLoop_eq:
  assumes "distinct (map fst es)" and "\<forall>e \<in> set es. \<not> map_has (pendingEncryptedEvents a) (fst e)"
  shows "retryLoop env es a =
           a\<lparr>trace := trace a @ concat (map (sweepCalls env a) es),
             pendingEncryptedEvents := pendingEncryptedEvents a @ filter (reinserted env a) es\<rparr>"
  using assms
proof (induction es arbitrary: a)
  case Nil
  then show ?case by simp
next
  case (Cons e es)
  let ?a1 = "retryOne env e a"
  have cl: "client ?a1 = client a" "config ?a1 = config a"
    by (simp_all add: retryOne_eq)
  have sc: "sweepCalls env ?a1 = sweepCalls env a" and ri: "reinserted env ?a1 = reinserted env a"
    using cl by (auto intro: sweepCalls_cong reinserted_cong)
  have fresh: "\<not> map_has (pendingEncryptedEvents a) (fst e)"
    using Cons.prems(2) by simp
  have p1: "pendingEncryptedEvents ?a1 =
              pendingEncryptedEvents a @ (if reinserted env a e then [e] else [])"
    using fresh by (simp add: retryOne_eq map_set_fresh)
  have t1: "trace ?a1 = trace a @ sweepCalls env a e"
    by (simp add: retryOne_eq)
  have pre: "\<forall>x \<in> set es. \<not> map_has (pendingEncryptedEvents ?a1) (fst x)"
    using Cons.prems by (force simp: p1 map_has_def)
  have d: "distinct (map fst es)" using Cons.prems(1) by simp
  have "retryLoop env (e # es) a = retryLoop env es ?a1" by simp
  also have "\<dots> = ?a1\<lparr>trace := trace ?a1 @ concat (map (sweepCalls env ?a1) es),
                      pendingEncryptedEvents :=
                        pendingEncryptedEvents ?a1 @ filter (reinserted env ?a1) es\<rparr>"
    by (rule Cons.IH [OF d pre])
  also have "\<dots> = a\<lparr>trace := trace a @ concat (map (sweepCalls env a) (e # es)),
                     pendingEncryptedEvents :=
                       pendingEncryptedEvents a @ filter (reinserted env a) (e # es)\<rparr>"
    unfolding sc ri p1 t1 by (simp add: retryOne_eq)
  finally show ?case .
qed

lemma retrySnapshot_eq:
  assumes "wf_map (pendingEncryptedEvents a)"
  shows "retrySnapshot env a =
           a\<lparr>trace := trace a @ concat (map (sweepCalls env a) (pendingEncryptedEvents a)),
             pendingEncryptedEvents := filter (reinserted env a) (pendingEncryptedEvents a)\<rparr>"
proof -
  let ?b = "a\<lparr>pendingEncryptedEvents := []\<rparr>"
  have "retrySnapshot env a = retryLoop env (pendingEncryptedEvents a) ?b"
    by (simp add: retrySnapshot_def)
  also have "\<dots> = ?b\<lparr>trace := trace ?b @ concat (map (sweepCalls env ?b) (pendingEncryptedEvents a)),
             pendingEncryptedEvents := pendingEncryptedEvents ?b @ filter (reinserted env ?b) (pendingEncryptedEvents a)\<rparr>"
    using assms by (intro retryLoop_eq) (simp_all add: wf_map_def map_has_def)
  also have "\<dots> = a\<lparr>trace := trace a @ concat (map (sweepCalls env a) (pendingEncryptedEvents a)),
             pendingEncryptedEvents := filter (reinserted env a) (pendingEncryptedEvents a)\<rparr>"
    by (simp add: sweepCalls_cong [of ?b a] reinserted_cong [of ?b a])
  finally show ?thesis .
qed

lemma cleanupLoop_eq:
  "cleanupLoop now es a =
     a\<lparr>pendingEncryptedEvents :=
         filter (\<lambda>e. \<forall>e' \<in> set es. now - getTs (snd e') > maxAge \<longrightarrow> fst e \<noteq> fst e')
           (pendingEncryptedEvents a)\<rparr>"
proof (induction es arbitrary: a)
  case Nil
  then show ?case by simp
next
  case (Cons e es)
  show ?case
    by (cases e) (auto simp: Cons.IH cleanupOne_def map_delete_def intro!: filter_cong)
qed


lemma retryLoop_trace:
  "trace (retryLoop env es a) = trace a @ concat (map (sweepCalls env a) es)"
proof (induction es arbitrary: a)
  case Nil
  then show ?case by simp
next
  case (Cons e es)
  have "sweepCalls env (retryOne env e a) = sweepCalls env a"
    by (rule sweepCalls_cong) (simp_all add: retryOne_eq)
  then show ?case by (simp add: Cons.IH) (simp add: retryOne_eq)
qed

lemma map_set_subset: "set (map_set m k v) \<subseteq> insert (k, v) (set m)"
  by (auto simp: map_set_def)

lemma retryLoop_pending_subset:
  "set (pendingEncryptedEvents (retryLoop env es a)) \<subseteq> set (pendingEncryptedEvents a) \<union> set es"
proof (induction es arbitrary: a)
  case Nil
  then show ?case by simp
next
  case (Cons e es)
  have "set (pendingEncryptedEvents (retryOne env e a)) \<subseteq> insert e (set (pendingEncryptedEvents a))"
    using map_set_subset [of "pendingEncryptedEvents a" "fst e" "snd e"]
    by (auto simp: retryOne_eq)
  with Cons.IH [of "retryOne env e a"] show ?case by auto
qed

lemma retryLoop_client: "client (retryLoop env es a) = client a"
  by (induction es arbitrary: a) (simp_all add: retryOne_eq)

lemma sweepCalls_dispatched:
  "dispatched (sweepCalls env a e) =
     (case sweepRoom a (snd e) of None \<Rightarrow> [] | Some room \<Rightarrow> [(snd e, room)])"
  by (simp add: sweepCalls_def handleMessageEvent_dispatched split: option.splits)

lemma dispatched_concat_sweepCalls:
  "fst ` set (dispatched (concat (map (sweepCalls env a) es))) \<subseteq> snd ` set es"
  by (induction es) (auto simp: dispatched_append sweepCalls_dispatched split: option.splits)

text \<open>The sweep: its trace, and its pending map.\<close>

lemma sweep_trace:
  "\<exists>cs. trace (retryPendingDecryptions env now a) = trace a @ RetryPendingDecryptions # cs
        \<and> fst ` set (dispatched cs) \<subseteq> snd ` set (pendingEncryptedEvents a)"
proof (cases "client a = None \<or> pendingEncryptedEvents a = []")
  case True
  then show ?thesis by (auto simp: retryPendingDecryptions_def Let_def)
next
  case False
  let ?b = "a\<lparr>trace := trace a @ [RetryPendingDecryptions]\<rparr>"
  let ?cs = "concat (map (sweepCalls env (?b\<lparr>pendingEncryptedEvents := []\<rparr>)) (pendingEncryptedEvents a))"
  have "trace (retryPendingDecryptions env now a) = trace a @ RetryPendingDecryptions # ?cs"
    using False
    by (auto simp: retryPendingDecryptions_def Let_def cleanupLoop_eq retrySnapshot_def retryLoop_trace)
  moreover have "fst ` set (dispatched ?cs) \<subseteq> snd ` set (pendingEncryptedEvents a)"
    by (rule dispatched_concat_sweepCalls)
  ultimately show ?thesis by blast
qed

lemma sweep_pending_subset:
  "set (pendingEncryptedEvents (retryPendingDecryptions env now a)) \<subseteq> set (pendingEncryptedEvents a)"
proof (cases "client a = None \<or> pendingEncryptedEvents a = []")
  case True
  then show ?thesis by (auto simp: retryPendingDecryptions_def Let_def)
next
  case False
  let ?b = "a\<lparr>trace := trace a @ [RetryPendingDecryptions]\<rparr>"
  have "set (pendingEncryptedEvents (retrySnapshot env ?b)) \<subseteq> set (pendingEncryptedEvents a)"
    using retryLoop_pending_subset [of env "pendingEncryptedEvents a" "?b\<lparr>pendingEncryptedEvents := []\<rparr>"]
    by (simp add: retrySnapshot_def)
  then show ?thesis
    using False by (auto simp: retryPendingDecryptions_def Let_def cleanupLoop_eq)
qed

lemma sweep_no_old:
  assumes "client a \<noteq> None" and "e \<in> set (pendingEncryptedEvents (retryPendingDecryptions env now a))"
  shows "now - getTs (snd e) \<le> maxAge"
proof (cases "pendingEncryptedEvents a = []")
  case True
  with assms show ?thesis by (simp add: retryPendingDecryptions_def Let_def)
next
  case False
  with assms show ?thesis
    by (fastforce simp: retryPendingDecryptions_def Let_def cleanupLoop_eq)
qed

lemma sweeps_never_dispatch:
  assumes "event \<notin> snd ` set (pendingEncryptedEvents a)"
  shows "\<exists>cs. trace (foldl (\<lambda>s t. retryPendingDecryptions env t s) a nows) = trace a @ cs
            \<and> event \<notin> fst ` set (dispatched cs)"
  using assms
proof (induction nows arbitrary: a)
  case Nil
  then show ?case by simp
next
  case (Cons t nows)
  let ?a1 = "retryPendingDecryptions env t a"
  obtain cs1 where cs1: "trace ?a1 = trace a @ RetryPendingDecryptions # cs1"
      "fst ` set (dispatched cs1) \<subseteq> snd ` set (pendingEncryptedEvents a)"
    using sweep_trace by blast
  have "event \<notin> snd ` set (pendingEncryptedEvents ?a1)"
    using Cons.prems sweep_pending_subset [of env t a] by auto
  from Cons.IH [OF this] obtain cs2 where
    cs2: "trace (foldl (\<lambda>s t. retryPendingDecryptions env t s) ?a1 nows) = trace ?a1 @ cs2"
      "event \<notin> fst ` set (dispatched cs2)" by blast
  have "trace (foldl (\<lambda>s t. retryPendingDecryptions env t s) a (t # nows))
          = trace a @ (RetryPendingDecryptions # cs1 @ cs2)"
    using cs1(1) cs2(1) by simp
  moreover have "event \<notin> fst ` set (dispatched (RetryPendingDecryptions # cs1 @ cs2))"
    using cs1(2) cs2(2) Cons.prems by (auto simp: dispatched_append)
  ultimately show ?case by blast
qed

subsection \<open>The sweep as a whole\<close>

text \<open>
  Given a well-formed pending map and a client, a sweep hands to \<open>handleMessageEvent\<close> the
  entries that have clear content and a room the client knows, keeps the entries without
  clear content and those whose dispatch threw, and then drops what is older than
  \<open>maxAge\<close>.
\<close>

lemma cleanupLoop_distinct:
  assumes "distinct (map fst (pendingEncryptedEvents a))"
  shows "cleanupLoop now (pendingEncryptedEvents a) a =
           a\<lparr>pendingEncryptedEvents :=
               filter (\<lambda>e. now - getTs (snd e) \<le> maxAge) (pendingEncryptedEvents a)\<rparr>"
proof -
  let ?m = "pendingEncryptedEvents a"
  have "filter (\<lambda>e. \<forall>e' \<in> set ?m. now - getTs (snd e') > maxAge \<longrightarrow> fst e \<noteq> fst e') ?m
           = filter (\<lambda>e. now - getTs (snd e) \<le> maxAge) ?m"
  proof (rule filter_cong [OF refl])
    fix e assume e: "e \<in> set ?m"
    have "e' = e" if "e' \<in> set ?m" "fst e = fst e'" for e'
      using that e assms by (metis eq_key_imp_eq_value prod.collapse)
    then show "(\<forall>e' \<in> set ?m. now - getTs (snd e') > maxAge \<longrightarrow> fst e \<noteq> fst e')
                = (now - getTs (snd e) \<le> maxAge)"
      using e by (metis not_less)
  qed
  then show ?thesis
    unfolding cleanupLoop_eq
    by (rule arg_cong [where f = "\<lambda>m. a\<lparr>pendingEncryptedEvents := m\<rparr>"])
qed

lemma sweep_eq:
  assumes "client a = Some c" and "wf_map (pendingEncryptedEvents a)"
  shows "retryPendingDecryptions env now a =
           a\<lparr>trace := trace a @ RetryPendingDecryptions
                        # concat (map (sweepCalls env a) (pendingEncryptedEvents a)),
             pendingEncryptedEvents :=
               filter (\<lambda>e. now - getTs (snd e) \<le> maxAge)
                 (filter (reinserted env a) (pendingEncryptedEvents a))\<rparr>"
proof (cases "pendingEncryptedEvents a = []")
  case True
  then show ?thesis using assms(1) by (simp add: retryPendingDecryptions_def Let_def)
next
  case False
  let ?b = "a\<lparr>trace := trace a @ [RetryPendingDecryptions]\<rparr>"
  let ?kept = "filter (reinserted env a) (pendingEncryptedEvents a)"
  let ?s = "a\<lparr>trace := trace a @ RetryPendingDecryptions
                        # concat (map (sweepCalls env a) (pendingEncryptedEvents a)),
            pendingEncryptedEvents := ?kept\<rparr>"
  have wfb: "wf_map (pendingEncryptedEvents ?b)" using assms(2) by simp
  have snap: "retrySnapshot env ?b = ?s"
    unfolding retrySnapshot_eq [OF wfb]
    by (simp add: sweepCalls_cong [of ?b a] reinserted_cong [of ?b a])
  have dk: "distinct (map fst (pendingEncryptedEvents ?s))"
    using assms(2) by (simp add: wf_map_def distinct_map_filter)
  have "retryPendingDecryptions env now a =
          cleanupLoop now (pendingEncryptedEvents (retrySnapshot env ?b)) (retrySnapshot env ?b)"
    using False assms(1) by (simp add: retryPendingDecryptions_def Let_def)
  also have "\<dots> = cleanupLoop now (pendingEncryptedEvents ?s) ?s"
    by (simp only: snap)
  also have "\<dots> = ?s\<lparr>pendingEncryptedEvents :=
                       filter (\<lambda>e. now - getTs (snd e) \<le> maxAge) (pendingEncryptedEvents ?s)\<rparr>"
    by (rule cleanupLoop_distinct [OF dk])
  finally show ?thesis by simp
qed

subsection \<open>A text message of an open bot\<close>


subsection \<open>The concrete scenarios\<close>

lemma room0_fields:
  "roomId room0 = ''!room:hs''" "getJoinedMembers room0 = 2"
  by (simp_all add: room0_def)

lemma botClient_fields:
  "getUserId botClient = Some ''@bot:hs''" "getDeviceId botClient = Some ''BOTDEV''"
  "getCrypto botClient" "getRoom botClient (Some ''!room:hs'') = Some room0"
  "getRoom botClient (Some ''!gone:hs'') = None"
  by (simp_all add: botClient_def getRoom_def)

lemma config0_fields:
  "dmPolicy config0 = ''open''" "recoveryKey config0 = Some ''EsTc''" "userDeviceId config0 = None"
  by (simp_all add: config0_def)

lemma adapter0_fields:
  "client adapter0 = Some botClient" "config adapter0 = config0" "initialSyncDone adapter0"
  "verificationHandler adapter0" "pendingEncryptedEvents adapter0 = []"
  "decryptedObservers adapter0 = []" "trace adapter0 = []"
  by (simp_all add: adapter0_def)

lemma helloContent_fields:
  "msgtype helloContent = Some ''m.text''" "body helloContent = Some ''hello''"
  by (simp_all add: helloContent_def)

lemma event1_fields:
  "getClearContent event1 = None" "getTs event1 = 0" "getType event1 = ''m.room.encrypted''"
  "getSender event1 = Some ''@alice:hs''" "getRoomId event1 = Some ''!room:hs''"
  "getContent event1 = encryptedContent"
  by (simp_all add: event1_def)

lemma event1_decrypted_fields:
  "getClearContent event1_decrypted = Some helloContent" "getTs event1_decrypted = 0"
  "getType event1_decrypted = ''m.room.encrypted''"
  "getSender event1_decrypted = Some ''@alice:hs''" "getRoomId event1_decrypted = Some ''!room:hs''"
  "getContent event1_decrypted = helloContent"
  by (simp_all add: event1_decrypted_def event1_def)

lemma env_onMessage_fields:
  "env_onMessage env0 = Some (\<lambda>m. None)"
  by (simp_all add: env0_def)

lemmas scenario_fields =
  room0_fields botClient_fields config0_fields adapter0_fields helloContent_fields
  event1_fields event1_decrypted_fields env_onMessage_fields


text \<open>A text message of a user whom an allowlist bot does not allow.\<close>

lemma handleMessageEvent_blocked_text:
  assumes "client a = Some c" and "getUserId c = Some u" and "u \<noteq> []"
    and "getSender ev = Some s" and "s \<noteq> []" and "s \<noteq> u"
    and "getClearContent ev = Some cc" and "msgtype cc = Some ''m.text''"
    and "body (getContent ev) = Some b" and "b \<noteq> []" and "\<not> startsWith b ''/''"
    and "dmPolicy (config a) = ''allowlist''"
    and "env_isUserAllowed env s (allowedUsers (config a)) = Inr False"
  shows "handleMessageEvent env a ev room =
           ((case env_clientSendMessage env (roomId room)
                   ''Sorry, you're not authorized to use this bot.'' of
               None \<Rightarrow> Inr () | Some e \<Rightarrow> Inl e),
            [HandleMessageEvent ev room, IsUserAllowed s,
             SendMessage (roomId room) ''Sorry, you're not authorized to use this bot.''])"
  using assms
  by (simp add: handleMessageEvent_def handleTextMessage_def handleTextMessage_access_def
        checkAccess_def andThen_def sendMessage_def Let_def split: option.splits)

lemma blocked_scenarios:
  "client allowlistAdapter = Some botClient" "dmPolicy (config allowlistAdapter) = ''allowlist''"
  "pendingEncryptedEvents allowlistAdapter = []" "decryptedObservers allowlistAdapter = []"
  "trace allowlistAdapter = []" "initialSyncDone allowlistAdapter"
  "env_isUserAllowed envSendFails u l = Inr False"
  "env_clientSendMessage envSendFails r t = Some (Error ''M_LIMIT_EXCEEDED'')"
  by (simp_all add: allowlistAdapter_def adapter0_def config0_def
        envSendFails_def env0_def)

lemma sorry_to_alice:
  assumes "client a = Some botClient" and "dmPolicy (config a) = ''allowlist''"
  shows "handleMessageEvent envSendFails a event1_decrypted room0 =
           (Inl (Error ''M_LIMIT_EXCEEDED''),
            [HandleMessageEvent event1_decrypted room0, IsUserAllowed ''@alice:hs'',
             SendMessage ''!room:hs'' ''Sorry, you're not authorized to use this bot.''])"
  using assms
  by (simp add: handleMessageEvent_blocked_text [where u = "''@bot:hs''" and b = "''hello''"]
        scenario_fields blocked_scenarios startsWith_def)

lemma timeline_decrypted:
  assumes "getType event = ''m.room.encrypted''" and "\<not> senderIsOwn a event"
    and "getClearContent event = Some cc"
  shows "timelineHandler env now event (Some room) toStartOfTimeline a =
           (Inr (), a\<lparr>trace := trace a @ snd (handleMessageEvent env a event room)\<rparr>)"
  using assms
  by (simp add: timelineHandler_def timelineDispatch_def catchAll_def exec_def)

text \<open>
  No method of the adapter puts an event into an empty pending map: the only
  \<open>pendingEncryptedEvents.set\<close> of the code are the two in the retry loop.
\<close>

lemma pending_stays_empty:
  assumes "pendingEncryptedEvents a = []"
  shows "pendingEncryptedEvents (snd (timelineHandler env now event room toStartOfTimeline a)) = []"
    and "pendingEncryptedEvents (snd (onEventDecrypted env event a)) = []"
    and "pendingEncryptedEvents (retryPendingDecryptions env now a) = []"
    and "pendingEncryptedEvents (restoreKeysFromBackup env now a) = []"
    and "pendingEncryptedEvents (initiateProactiveVerification env a) = []"
proof -
  have s: "pendingEncryptedEvents (retryPendingDecryptions env now b) = []"
    if "pendingEncryptedEvents b = []" for b
    using that by (simp add: retryPendingDecryptions_def Let_def)
  show "pendingEncryptedEvents (retryPendingDecryptions env now a) = []"
    using assms by (rule s)
  show "pendingEncryptedEvents (snd (timelineHandler env now event room toStartOfTimeline a)) = []"
    using assms
    by (auto simp: timelineHandler_def timelineDispatch_def catchAll_def exec_def s
             split: option.splits)
  show "pendingEncryptedEvents (snd (onEventDecrypted env event a)) = []"
    using assms by (auto simp: onEventDecrypted_def exec_def split: option.splits)
  show "pendingEncryptedEvents (restoreKeysFromBackup env now a) = []"
    using assms
    by (auto simp: restoreKeysFromBackup_def Let_def s split: option.splits sum.splits)
  show "pendingEncryptedEvents (initiateProactiveVerification env a) = []"
    using assms
    by (auto simp: initiateProactiveVerification_def Let_def exec_def
             split: option.splits prod.splits sum.splits)
qed


subsection \<open>An undecryptable event on receipt\<close>

text \<open>
  The timeline handler, given an encrypted event without clear content, leaves the
  pending map as it is.  Given the undecryptable \<open>$E1\<close>, it registers the listener for
  \<open>Event.decrypted\<close>, asks for the room key and returns.
\<close>

lemma undecryptable_not_made_pending:
  assumes "getType event = ''m.room.encrypted''" and "getClearContent event = None"
  shows "pendingEncryptedEvents (snd (timelineHandler env now event room toStartOfTimeline a))
           = pendingEncryptedEvents a"
  using assms by (simp add: timelineHandler_def exec_def split: option.splits)






subsection \<open>Eviction\<close>


subsection \<open>The retry loop\<close>


subsection \<open>The retry path and the immediate path\<close>


subsection \<open>Exceptions in event handlers\<close>

text \<open>The timeline handler itself returns normally, whatever the collaborators do.\<close>

lemma timelineHandler_returns:
  "fst (timelineHandler env now event room toStartOfTimeline a) = Inr ()"
  by (simp add: timelineHandler_def catchAll_def split: option.splits)

text \<open>
  Claim C9.  An exception does leave an event handler: the listener for
  \<open>Event.decrypted\<close> that the timeline handler registers calls \<open>handleMessageEvent\<close>
  outside any \<open>try\<close>.  The undecryptable event \<open>$E1\<close> of a user whom the bot does not
  allow reaches the timeline handler, which registers the listener, asks for the room key
  and returns.  When the SDK has decrypted the event, the listener runs and the bot's
  reply to the sender is refused by the homeserver: the exception is the listener's
  result.  The timeline handler, given the same event already decrypted, makes the
  same calls, catches the same exception and returns normally.
\<close>

theorem decrypted_listener_throws:
  "timelineHandler envSendFails 1000 event1 (Some room0) False allowlistAdapter
     = (Inr (), allowlistAdapter\<lparr>decryptedObservers := [event1],
                          trace := [RequestRoomKey ''!room:hs'' ''curve25519key'' ''sess1'']\<rparr>)
   \<and> fst (onEventDecrypted envSendFails event1_decrypted
            (snd (timelineHandler envSendFails 1000 event1 (Some room0) False allowlistAdapter)))
       = Inl (Error ''M_LIMIT_EXCEEDED'')
   \<and> timelineHandler envSendFails 1000 event1_decrypted (Some room0) False allowlistAdapter
       = (Inr (), allowlistAdapter\<lparr>trace :=
            [HandleMessageEvent event1_decrypted room0, IsUserAllowed ''@alice:hs'',
             SendMessage ''!room:hs'' ''Sorry, you're not authorized to use this bot.'']\<rparr>)"
proof -
  have t: "timelineHandler envSendFails 1000 event1 (Some room0) False allowlistAdapter
     = (Inr (), allowlistAdapter\<lparr>decryptedObservers := [event1],
                          trace := [RequestRoomKey ''!room:hs'' ''curve25519key'' ''sess1'']\<rparr>)"
    by (simp add: timelineHandler_def senderIsOwn_def requestRoomKey_def exec_def
          scenario_fields blocked_scenarios encryptedContent_def split: option.splits)
  have o: "\<not> senderIsOwn allowlistAdapter event1_decrypted"
    by (simp add: senderIsOwn_def scenario_fields blocked_scenarios)
  show ?thesis
    unfolding t
    by (simp add: onEventDecrypted_def exec_def scenario_fields blocked_scenarios sorry_to_alice
          timeline_decrypted [OF _ o])
qed

section \<open>Properties of the key backup restore\<close>

lemma sweep_trace_prefix:
  "\<exists>cs. trace (retryPendingDecryptions env now a) = trace a @ RetryPendingDecryptions # cs"
  using sweep_trace [of env now a] by blast

text \<open>
  Claim C6.  When \<open>restoreKeysFromBackup\<close> reaches \<open>restoreKeyBackup\<close> (client, crypto and
  recovery key present, a backup found) and that call returns \<open>imported\<close> keys: if
  \<open>imported > 0\<close> the next thing the method does is to run \<open>retryPendingDecryptions\<close>, on
  whatever the pending map holds, also on an empty one, and the two second delay follows
  the sweep; if \<open>imported\<close> is zero the method goes to the delay without a sweep.
\<close>

theorem restore_triggers_sweep:
  assumes "client a = Some c" and "getCrypto c"
    and "recoveryKey (config a) = Some rk" and "rk \<noteq> []"
    and "env_decodeRecoveryKey env rk = None"
    and "env_checkKeyBackupAndEnable env = Inr True"
    and "env_restoreKeyBackup env = Inr imported"
  shows "(imported > 0 \<longrightarrow>
            restoreKeysFromBackup env now a =
              (retryPendingDecryptions env now
                 (a\<lparr>trace := trace a @ [StoreSessionBackupPrivateKey, CheckKeyBackupAndEnable,
                                         RestoreKeyBackup]\<rparr>))
              \<lparr>trace := trace (retryPendingDecryptions env now
                 (a\<lparr>trace := trace a @ [StoreSessionBackupPrivateKey, CheckKeyBackupAndEnable,
                                         RestoreKeyBackup]\<rparr>)) @ [Sleep 2000]\<rparr>
            \<and> (\<exists>cs. trace (restoreKeysFromBackup env now a) =
                       trace a @ [StoreSessionBackupPrivateKey, CheckKeyBackupAndEnable,
                                  RestoreKeyBackup, RetryPendingDecryptions] @ cs))
       \<and> (imported \<le> 0 \<longrightarrow>
            restoreKeysFromBackup env now a =
              a\<lparr>trace := trace a @ [StoreSessionBackupPrivateKey, CheckKeyBackupAndEnable,
                                    RestoreKeyBackup, Sleep 2000]\<rparr>)"
proof -
  let ?b = "a\<lparr>trace := trace a @ [StoreSessionBackupPrivateKey, CheckKeyBackupAndEnable,
                                   RestoreKeyBackup]\<rparr>"
  obtain cs where cs: "trace (retryPendingDecryptions env now ?b) = trace ?b @ RetryPendingDecryptions # cs"
    using sweep_trace_prefix by blast
  have pos: "restoreKeysFromBackup env now a =
               (retryPendingDecryptions env now ?b)
                 \<lparr>trace := trace (retryPendingDecryptions env now ?b) @ [Sleep 2000]\<rparr>"
    if "imported > 0"
    using assms that by (simp add: restoreKeysFromBackup_def Let_def)
  have neg: "restoreKeysFromBackup env now a =
               a\<lparr>trace := trace a @ [StoreSessionBackupPrivateKey, CheckKeyBackupAndEnable,
                                     RestoreKeyBackup, Sleep 2000]\<rparr>"
    if "imported \<le> 0"
    using assms that by (simp add: restoreKeysFromBackup_def Let_def)
  have "\<exists>cs'. trace (restoreKeysFromBackup env now a) =
                 trace a @ [StoreSessionBackupPrivateKey, CheckKeyBackupAndEnable,
                            RestoreKeyBackup, RetryPendingDecryptions] @ cs'"
    if "imported > 0"
    using pos [OF that] cs by simp
  with pos neg show ?thesis by blast
qed

theorem restore_triggers_sweep_witness:
  "pendingEncryptedEvents adapter0 = [] \<and> env_restoreKeyBackup env0 = Inr 12
   \<and> restoreKeysFromBackup env0 1000 adapter0 =
       adapter0\<lparr>trace := [StoreSessionBackupPrivateKey, CheckKeyBackupAndEnable, RestoreKeyBackup,
                           RetryPendingDecryptions, Sleep 2000]\<rparr>
   \<and> restoreKeysFromBackup (env0\<lparr>env_restoreKeyBackup := Inr 0\<rparr>) 1000 adapter0 =
       adapter0\<lparr>trace := [StoreSessionBackupPrivateKey, CheckKeyBackupAndEnable, RestoreKeyBackup,
                           Sleep 2000]\<rparr>"
proof -
  have 1: "client adapter0 = Some botClient" and 2: "getCrypto botClient"
    and 3: "recoveryKey (config adapter0) = Some ''EsTc''" and 4: "''EsTc'' \<noteq> []"
    by (simp_all add: scenario_fields)
  have e: "env_decodeRecoveryKey env0 ''EsTc'' = None" "env_checkKeyBackupAndEnable env0 = Inr True"
    "env_restoreKeyBackup env0 = Inr 12"
    by (simp_all add: env0_def)
  have e0: "env_decodeRecoveryKey (env0\<lparr>env_restoreKeyBackup := Inr 0\<rparr>) ''EsTc'' = None"
    "env_checkKeyBackupAndEnable (env0\<lparr>env_restoreKeyBackup := Inr 0\<rparr>) = Inr True"
    "env_restoreKeyBackup (env0\<lparr>env_restoreKeyBackup := Inr 0\<rparr>) = Inr 0"
    by (simp_all add: env0_def)
  have s: "retryPendingDecryptions env0 1000 (adapter0\<lparr>trace := t\<rparr>)
             = adapter0\<lparr>trace := t @ [RetryPendingDecryptions]\<rparr>" for t
    by (simp add: retryPendingDecryptions_def Let_def scenario_fields)
  show ?thesis
    using restore_triggers_sweep [OF 1 2 3 4 e, of 1000]
          restore_triggers_sweep [OF 1 2 3 4 e0, of 1000]
    by (simp add: scenario_fields e s)
qed

section \<open>Properties of proactive verification\<close>








text \<open>The white space of \<open>trim\<close> is the table of ECMAScript, as far as a \<open>char\<close> goes.\<close>

lemma is_space_code_unit: "is_space c \<longleftrightarrow> of_char c \<in> set whiteSpace"
proof -
  have b: "(of_char c :: nat) < 256" by simp
  have e: "(c = d) = ((of_char c :: nat) = of_char d)" for d
    by simp
  have "is_space c \<longleftrightarrow> (of_char c :: nat) \<in> {9, 10, 11, 12, 13, 32, 160}"
    unfolding is_space_def
    by (simp add: e [of "CHR 0x09"] e [of "CHR 0x0A"] e [of "CHR 0x0B"] e [of "CHR 0x0C"]
          e [of "CHR 0x0D"] e [of "CHR 0x20"] e [of "CHR 0xA0"] del: of_char_eq_iff)
  also have "\<dots> \<longleftrightarrow> of_char c \<in> set whiteSpace"
  proof -
    have "(n \<in> {9, 10, 11, 12, 13, 32, 160}) = (n \<in> set whiteSpace)" if "n < 256" for n :: nat
      using that by (auto simp: whiteSpace_def)
    then show ?thesis using b by blast
  qed
  finally show ?thesis .
qed










section \<open>Properties of the verification handler\<close>

subsection \<open>The map of active verifications\<close>

lemma wf_map_set:
  assumes "wf_map m"
  shows "wf_map (map_set m k v)"
proof -
  have "fst \<circ> (\<lambda>e. if fst e = k then (k, v) else e) = fst"
    by (auto simp: fun_eq_iff)
  with assms show ?thesis
    by (simp add: wf_map_def map_set_def map_has_def)
qed

lemma wf_map_delete: "wf_map m \<Longrightarrow> wf_map (map_delete m k)"
  by (simp add: wf_map_def map_delete_def distinct_map_filter)

lemma keyed_set:
  "keyed m \<Longrightarrow> k = verificationKey (av_userId v) (av_deviceId v) \<Longrightarrow> keyed (map_set m k v)"
  by (auto simp: keyed_def map_set_def list_all_iff)

lemma keyed_delete: "keyed m \<Longrightarrow> keyed (map_delete m k)"
  by (auto simp: keyed_def map_delete_def list_all_iff)

lemma keyed_get:
  "keyed m \<Longrightarrow> map_get m k = Some v \<Longrightarrow> k = verificationKey (av_userId v) (av_deviceId v)"
  by (auto simp: keyed_def map_get_def list_all_iff dest!: map_of_SomeD)

text \<open>What each callback does to the map.\<close>

lemma unchanged_map:
  "activeVerifications (emit now e h) = activeVerifications h"
  "activeVerifications (suspend t h) = activeVerifications h"
  "activeVerifications (setTimeout now tm delay h) = activeVerifications h"
  "activeVerifications (off i h) = activeVerifications h"
  "activeVerifications (attachVerifierListeners v req key h) = activeVerifications h"
  "activeVerifications (confirmVerification now key h) = activeVerifications h"
  "activeVerifications (startSAS_afterKeys s now req key h) = activeVerifications h"
  "activeVerifications (startSASVerification s now req key h) = activeVerifications h"
  "activeVerifications (acceptAndStartSAS now req key h) = activeVerifications h"
  "activeVerifications (acceptAndStartSAS_accepted s now req key h) = activeVerifications h"
  "activeVerifications (onChange s now i req key h) = activeVerifications h"
  "activeVerifications (readyPoll s now i req key h) = activeVerifications h"
  "activeVerifications (onReadyOrStarted s now i req key h) = activeVerifications h"
  by (simp_all add: emit_def suspend_def setTimeout_def off_def attachVerifierListeners_def
        confirmVerification_def startSAS_afterKeys_def startSASVerification_def
        acceptAndStartSAS_def acceptAndStartSAS_accepted_def onChange_def readyPoll_def
        onReadyOrStarted_def Let_def split: option.splits)

lemma storeAndStart_map:
  "activeVerifications (storeAndStart s now req h) =
     map_set (activeVerifications h) (keyOf (requests s req)) (newVerification req (requests s req))"
  by (simp add: storeAndStart_def Let_def unchanged_map split: option.splits)

lemma handleVerificationRequest_map:
  "activeVerifications (handleVerificationRequest s now req h) =
     (case map_get (activeVerifications h) (keyOf (requests s req)) of
        None \<Rightarrow> activeVerifications h @ [(keyOf (requests s req), newVerification req (requests s req))]
      | Some existing \<Rightarrow>
          if phase (requests s (request existing)) = Cancelled
             \<or> phase (requests s (request existing)) = Done
             \<or> phase (requests s req) = Requested
          then map_delete (activeVerifications h) (keyOf (requests s req))
               @ [(keyOf (requests s req), newVerification req (requests s req))]
          else activeVerifications h)"
proof -
  have fresh: "map_set (map_delete m k) k v = map_delete m k @ [(k, v)]" for m :: "(string \<times> ActiveVerification) list" and k v
    by (auto simp: map_set_def map_has_def map_delete_def)
  have absent: "map_set m k v = m @ [(k, v)]" if "map_get m k = None" for m :: "(string \<times> ActiveVerification) list" and k v
    using that by (auto simp: map_set_def map_has_def map_get_def map_of_eq_None_iff)
  show ?thesis
    by (auto simp: handleVerificationRequest_def Let_def storeAndStart_map fresh absent
             split: option.splits)
qed

lemma newVerification_key:
  "keyOf r = verificationKey (av_userId (newVerification req r)) (av_deviceId (newVerification req r))"
  by (simp add: keyOf_def newVerification_def)

lemma inv_handleVerificationRequest:
  "sessionInvariant h \<Longrightarrow> sessionInvariant (handleVerificationRequest s now req h)"
  unfolding sessionInvariant_def handleVerificationRequest_def Let_def
  by (auto simp: storeAndStart_map intro!: wf_map_set wf_map_delete keyed_set keyed_delete
        newVerification_key split: option.splits)

lemma inv_onShowSas: "sessionInvariant h \<Longrightarrow> sessionInvariant (onShowSas s now sas v key h)"
  unfolding sessionInvariant_def onShowSas_def Let_def
  by (auto simp: unchanged_map intro!: wf_map_set keyed_set dest: keyed_get split: option.splits)

lemma inv_startSAS_started:
  "sessionInvariant h \<Longrightarrow> sessionInvariant (startSAS_started now result req key h)"
  unfolding sessionInvariant_def startSAS_started_def Let_def
  by (auto simp: unchanged_map intro!: wf_map_set keyed_set dest: keyed_get split: option.splits)

lemma inv_onCancel: "sessionInvariant h \<Longrightarrow> sessionInvariant (onCancel now err key h)"
  unfolding sessionInvariant_def onCancel_def
  by (auto simp: unchanged_map intro!: wf_map_delete keyed_delete)

lemma inv_onRequestChange:
  "sessionInvariant h \<Longrightarrow> sessionInvariant (onRequestChange s now req key h)"
  unfolding sessionInvariant_def onRequestChange_def
  by (auto simp: unchanged_map intro!: wf_map_delete keyed_delete)

lemma inv_requestVerification_requested:
  "sessionInvariant h \<Longrightarrow> sessionInvariant (requestVerification_requested uid did req h)"
  unfolding sessionInvariant_def requestVerification_requested_def Let_def
  by (auto intro!: wf_map_set keyed_set)

lemma inv_unchanged:
  "activeVerifications h' = activeVerifications h \<Longrightarrow> sessionInvariant h \<Longrightarrow> sessionInvariant h'"
  by (simp add: sessionInvariant_def)

lemma inv_foldl:
  assumes "\<And>h x. P h \<Longrightarrow> P (f h x)" and "P h"
  shows "P (foldl f h xs)"
  using assms(2) by (induction xs arbitrary: h) (auto intro: assms(1))

lemma inv_resume: "sessionInvariant h \<Longrightarrow> sessionInvariant (resume s now t out h)"
  unfolding resume_def
  by (auto split: task.splits outcome.splits
           intro: inv_startSAS_started inv_requestVerification_requested
                  inv_unchanged [OF unchanged_map(1)] inv_unchanged [OF unchanged_map(3)]
                  inv_unchanged [OF unchanged_map(10)])

lemma inv_runListener: "sessionInvariant h \<Longrightarrow> sessionInvariant (runListener s now h il)"
  unfolding runListener_def
  by (auto split: listener.splits
           intro: inv_onRequestChange inv_unchanged [OF unchanged_map(11)]
                  inv_unchanged [OF unchanged_map(13)])

lemma inv_fire: "sessionInvariant h \<Longrightarrow> sessionInvariant (fire s now t h)"
  unfolding fire_def
  by (auto split: timer.splits
           intro: inv_unchanged [OF unchanged_map(12)] inv_unchanged [OF unchanged_map(7)]
                  inv_unchanged [OF unchanged_map(6)])

lemma inv_handle:
  assumes "sessionInvariant h"
  shows "sessionInvariant (handle s now ev h)"
proof (cases ev)
  case (VerificationRequestReceived req)
  with assms show ?thesis
    by (simp add: handle_def inv_handleVerificationRequest)
next
  case (RequestVerification uid did)
  with assms show ?thesis
    by (auto simp: handle_def sessionInvariant_def unchanged_map)
next
  case (Settled i out)
  have "sessionInvariant (h\<lparr>tasks := filter (\<lambda>x. fst x \<noteq> i) (tasks h)\<rparr>)"
    using assms by (simp add: sessionInvariant_def)
  with assms Settled show ?thesis
    by (auto simp: handle_def split: option.splits intro!: inv_resume)
next
  case (Change req)
  with assms show ?thesis
    by (auto simp: handle_def intro!: inv_foldl [where P = sessionInvariant] inv_runListener)
next
  case (ShowSas v sas)
  with assms show ?thesis
    by (auto simp: handle_def intro!: inv_foldl [where P = sessionInvariant] inv_onShowSas)
next
  case (Cancel v err)
  with assms show ?thesis
    by (auto simp: handle_def intro!: inv_foldl [where P = sessionInvariant] inv_onCancel)
next
  case (Timeout i)
  have "sessionInvariant (h\<lparr>timers := filter (\<lambda>x. fst x \<noteq> i) (timers h)\<rparr>)"
    using assms by (simp add: sessionInvariant_def)
  with assms Timeout show ?thesis
    by (auto simp: handle_def split: option.splits intro!: inv_fire)
next
  case Dispose
  then show ?thesis
    by (simp add: handle_def dispose_def sessionInvariant_def wf_map_def keyed_def)
qed (use assms in \<open>simp_all add: handle_def\<close>)

lemma inv_run:
  "sessionInvariant (handlerOf w) \<Longrightarrow> sessionInvariant (handlerOf (run w evs))"
  unfolding run_def
  by (induction evs arbitrary: w) (simp_all add: step_def inv_handle)

lemma inv_newHandler: "sessionInvariant newHandler"
  by (simp add: sessionInvariant_def newHandler_def wf_map_def keyed_def)

lemma one_per_key:
  assumes "distinct (map fst m)" and "\<forall>e \<in> set m. P e \<longrightarrow> fst e = k"
  shows "length (filter P m) \<le> 1"
  using assms
proof (induction m)
  case Nil
  then show ?case by simp
next
  case (Cons e m)
  show ?case
  proof (cases "P e")
    case True
    then have k: "fst e = k" using Cons.prems(2) by simp
    have "filter P m = []"
    proof (rule ccontr)
      assume "filter P m \<noteq> []"
      then obtain e' where e': "e' \<in> set m" "P e'"
        by (metis filter_False)
      then have "fst e' = k" using Cons.prems(2) by simp
      with k e'(1) Cons.prems(1) show False by (force simp: image_iff)
    qed
    with True show ?thesis by simp
  next
    case False
    with Cons show ?thesis by simp
  qed
qed

lemma invariant_sessions:
  assumes "sessionInvariant h"
  shows "length (sessions h u d) \<le> 1"
proof -
  have d: "distinct (map fst (activeVerifications h))"
    and k: "\<forall>e \<in> set (activeVerifications h).
              fst e = verificationKey (av_userId (snd e)) (av_deviceId (snd e))"
    using assms by (simp_all add: sessionInvariant_def wf_map_def keyed_def list_all_iff)
  have "length (filter (\<lambda>e. av_userId (snd e) = u \<and> av_deviceId (snd e) = d)
                  (activeVerifications h)) \<le> 1"
    by (rule one_per_key [OF d, where k = "verificationKey u d"]) (use k in auto)
  then show ?thesis by (simp add: sessions_def)
qed

text \<open>
  Claim C1.  In every state that the handler reaches from its creation, whatever events
  arrive in whatever order and whatever the SDK does to its objects, the map holds at most
  one session for a peer user and device: so at most one that is not terminal.  And when
  \<open>handleVerificationRequest\<close> sees a request under whose key the map has an entry, and
  either the request of that entry is in phase \<open>Cancelled\<close> or \<open>Done\<close>, or the new request
  is in phase \<open>Requested\<close>, then the old entry is removed and one new entry for the new
  request is added: after the call the map holds exactly one entry under the key, the
  new one.
\<close>

theorem one_session_per_device:
  "length (sessions (handlerOf (run \<lparr>sdkOf = s0, handlerOf = newHandler, clock = t0\<rparr> evs)) u d) \<le> 1
   \<and> (map_get (activeVerifications h) (keyOf (requests s req)) = Some existing
        \<and> (phase (requests s (request existing)) = Cancelled
             \<or> phase (requests s (request existing)) = Done
             \<or> phase (requests s req) = Requested)
      \<longrightarrow> activeVerifications (handleVerificationRequest s now req h)
            = map_delete (activeVerifications h) (keyOf (requests s req))
              @ [(keyOf (requests s req), newVerification req (requests s req))]
          \<and> filter (\<lambda>e. fst e = keyOf (requests s req))
                (activeVerifications (handleVerificationRequest s now req h))
            = [(keyOf (requests s req), newVerification req (requests s req))])"
proof -
  have "sessionInvariant (handlerOf (run \<lparr>sdkOf = s0, handlerOf = newHandler, clock = t0\<rparr> evs))"
    by (rule inv_run) (simp add: inv_newHandler)
  then have one: "length (sessions (handlerOf (run \<lparr>sdkOf = s0, handlerOf = newHandler, clock = t0\<rparr> evs)) u d) \<le> 1"
    by (rule invariant_sessions)
  have flt: "filter (\<lambda>e. fst e = k) (map_delete m k @ [(k, v)]) = [(k, v)]"
    for m :: "(string \<times> ActiveVerification) list" and k v
    by (simp add: map_delete_def)
  have flt0: "filter (\<lambda>e. fst e = k) (map_delete m k) = []"
    for m :: "(string \<times> ActiveVerification) list" and k
    by (induction m) (auto simp: map_delete_def)
  show ?thesis
    using one by (auto simp: handleVerificationRequest_map flt flt0)
qed

lemma stale_world:
  "map_get (activeVerifications (handlerOf (run world0 staleTrace)))
       (keyOf (requests (sdkOf (run world0 staleTrace)) (Suc 0)))
     = Some (newVerification 0 requestA)"
  "phase (requests (sdkOf (run world0 staleTrace)) 0) = Cancelled"
  "activeVerifications (handlerOf (run world0 staleTrace))
     = [(''@alice:hs|D1'', newVerification 0 requestA)]"
  "keyOf (requests (sdkOf (run world0 staleTrace)) (Suc 0)) = ''@alice:hs|D1''"
  "requests (sdkOf (run world0 staleTrace)) (Suc 0) = requestA"
  "request (newVerification 0 requestA) = 0"
  "keyOf requestA = ''@alice:hs|D1''"
  by code_simp+

theorem one_session_per_device_witness:
  "length (sessions (handlerOf (run world0 reuseTrace)) ''@alice:hs'' ''D1'') \<le> 1
   \<and> activeVerifications (handleVerificationRequest (sdkOf (run world0 staleTrace)) 0 1
                             (handlerOf (run world0 staleTrace)))
       = [(''@alice:hs|D1'', newVerification 1 requestA)]"
  using one_session_per_device [of sdk0 0 reuseTrace "''@alice:hs''" "''D1''"
          "handlerOf (run world0 staleTrace)" "sdkOf (run world0 staleTrace)" 1
          "newVerification 0 requestA" 0]
  by (simp add: stale_world map_delete_def map_get_def world0_def [symmetric])


subsection \<open>Failures of the verification steps\<close>

text \<open>
  A rejection of \<open>accept\<close>, of the device key fetch, of \<open>startVerification\<close>, of \<open>verify\<close> or
  of \<open>confirm\<close> goes to \<open>onError\<close> and changes nothing else.
\<close>

lemma rejected_step_reports_error:
  "resume s now (AwaitAccept req key) (Rejected e) h = emit now (CbError e) h"
  "resume s now (AwaitDeviceKeys req key) (Rejected e) h = emit now (CbError e) h"
  "resume s now (AwaitStartVerification req key) (Rejected e) h = emit now (CbError e) h"
  "resume s now (AwaitVerify v) (Rejected e) h = emit now (CbError e) h"
  "resume s now (AwaitConfirm v) (Rejected e) h = emit now (CbError e) h"
  by (simp_all add: resume_def)

subsection \<open>What a timer does\<close>

text \<open>A timer that is not due does nothing; a confirmation needs a stored session with SAS callbacks.\<close>

lemma timer_not_due:
  "map_of (timers h) i = Some (due, t) \<Longrightarrow> now < due \<Longrightarrow> handle s now (Timeout i) h = h"
  by (simp add: handle_def)

lemma confirm_needs_session:
  "map_get (activeVerifications h) key = None \<Longrightarrow> confirmVerification now key h = h"
  by (simp add: confirmVerification_def)

lemma show_sas_sets_one_timer:
  assumes "getShowSasCallbacks (verifiers s v) = Some sd" and "sas_emoji sd = Some emoji"
  shows "timers (onShowSas s now True v key h) = timers h @ [(nextId h, now + 5000, AutoConfirm key)]"
    and "confirms (onShowSas s now True v key h) = confirms h"
  using assms
  by (simp_all add: onShowSas_def Let_def setTimeout_def emit_def confirms_def split: option.splits)

subsection \<open>The race of the change listener and the poll timer\<close>

lemma race_late_final:
  "handlerOf (run world0 raceTraceLate) =
     \<lparr>activeVerifications =
        [(''@alice:hs|D1'',
          \<lparr>av_userId = ''@alice:hs'', av_deviceId = ''D1'', verifier = Some 10,
           request = 0, sasCallbacks = Some 10\<rparr>)],
      changeListeners =
        [(8, OnRequestChange 0 ''@alice:hs|D1''), (12, OnRequestChange 0 ''@alice:hs|D1'')],
      verifierListeners = [(7, 10, ''@alice:hs|D1''), (11, 10, ''@alice:hs|D1'')],
      timers = [],
      tasks = [(9, AwaitVerify 10), (15, AwaitConfirm 10), (16, AwaitConfirm 10)],
      nextId = 17,
      effects =
        [(0, SdkAccept 0), (600, SdkFetchDeviceKeys ''@alice:hs''),
         (1000, SdkFetchDeviceKeys ''@alice:hs''),
         (1200, SdkStartVerification 0), (1200, SdkVerify 10),
         (1700, CbShowSas [''D Dog'', ''C Cat'']),
         (1700, CbShowSas [''D Dog'', ''C Cat'']), (6700, SdkConfirm 10),
         (6700, SdkConfirm 10)]\<rparr>"
  by code_simp

lemma race_final:
  "effects (handlerOf (run world0 raceTrace)) =
     [(0, SdkAccept 0), (600, SdkFetchDeviceKeys ''@alice:hs''),
      (1000, SdkFetchDeviceKeys ''@alice:hs''), (1500, SdkStartVerification 0),
      (1500, SdkStartVerification 0)]"
  by code_simp

text \<open>
  Claim C2.  The second firing is not a no-op.  Request 0 is accepted in phase
  \<open>Requested\<close>, so \<open>acceptAndStartSAS\<close> registers \<open>onChange\<close> and sets the one second
  timer.  The request becomes \<open>Ready\<close> at 600 ms: \<open>onChange\<close> removes itself and calls
  \<open>startSASVerification\<close>, which starts fetching the device keys.  The timer is still
  set; at 1000 ms it finds the phase \<open>Ready\<close> and calls \<open>startSASVerification\<close> again.
  When both calls pass their verifier check before the SDK has created a verifier, each
  calls \<open>request.startVerification\<close>: two initiations of the SAS key exchange for one
  verification.  When the second call passes the check after the first has started the
  verification, there is one initiation, and the second call attaches a second set of
  listeners to the verifier: the SAS is surfaced twice and confirmed twice.
\<close>

theorem ready_observed_twice_starts_twice:
  "sasStarts (handlerOf (run world0 raceTrace)) =
     [(1500, SdkStartVerification 0), (1500, SdkStartVerification 0)]
   \<and> sasStarts (handlerOf (run world0 raceTraceLate)) = [(1200, SdkStartVerification 0)]
   \<and> verifierListeners (handlerOf (run world0 raceTraceLate)) =
       [(7, 10, ''@alice:hs|D1''), (11, 10, ''@alice:hs|D1'')]
   \<and> shown (handlerOf (run world0 raceTraceLate)) =
       [(1700, CbShowSas [''D Dog'', ''C Cat'']), (1700, CbShowSas [''D Dog'', ''C Cat''])]"
  by (simp add: race_final race_late_final sasStarts_def shown_def)

subsection \<open>A timer that outlives its session\<close>

lemma reuse_final:
  "handlerOf (run world0 reuseTrace) =
     \<lparr>activeVerifications =
        [(''@alice:hs|D1'',
          \<lparr>av_userId = ''@alice:hs'', av_deviceId = ''D1'', verifier = Some 11,
           request = 1, sasCallbacks = Some 11\<rparr>)],
      changeListeners =
        [(5, OnRequestChange 0 ''@alice:hs|D1''), (13, OnRequestChange 1 ''@alice:hs|D1'')],
      verifierListeners = [(4, 10, ''@alice:hs|D1''), (12, 11, ''@alice:hs|D1'')],
      timers = [],
      tasks = [(6, AwaitVerify 10), (14, AwaitVerify 11), (16, AwaitConfirm 11),
               (17, AwaitConfirm 11)],
      nextId = 18,
      effects =
        [(0, SdkAccept 0), (0, SdkFetchDeviceKeys ''@alice:hs''),
         (500, SdkStartVerification 0), (500, SdkVerify 10),
         (500, CbShowSas [''D Dog'', ''C Cat'']),
         (1500, CbCancel ''User cancelled''), (2000, SdkAccept 1),
         (2000, SdkFetchDeviceKeys ''@alice:hs''),
         (2500, SdkStartVerification 1), (2500, SdkVerify 11),
         (4500, CbShowSas [''D Dog'', ''C Cat'']), (5500, SdkConfirm 11),
         (9500, SdkConfirm 11)]\<rparr>"
  by code_simp

text \<open>
  Claim C7.  The timer that \<open>show_sas\<close> sets holds the key of the map, not the session,
  and nothing clears it when the session is cancelled.  The SAS of request 0 is shown at
  500 ms and the peer cancels at 1500 ms, which removes the session.  The peer's next
  request for the same device, request 1, has its SAS shown at 4500 ms.  At 5500 ms the
  timer of the cancelled session fires, finds the session of request 1 under the key and
  calls \<open>confirm()\<close> on its callbacks, one second after they were shown; at 9500 ms the
  timer of request 1 calls \<open>confirm()\<close> on them again.  In the second scenario one
  session has its listeners attached twice, by the race of the change listener and the
  poll timer: one SAS sets two timers, and \<open>confirm()\<close> is called twice at 6700 ms.
\<close>

theorem stale_timer_confirms_new_session:
  "shown (handlerOf (run world0 reuseTrace)) =
     [(500, CbShowSas [''D Dog'', ''C Cat'']), (4500, CbShowSas [''D Dog'', ''C Cat''])]
   \<and> confirms (handlerOf (run world0 reuseTrace)) = [(5500, SdkConfirm 11), (9500, SdkConfirm 11)]
   \<and> map request (sessions (handlerOf (run world0 reuseTrace)) ''@alice:hs'' ''D1'') = [1]
   \<and> confirms (handlerOf (run world0 raceTraceLate)) = [(6700, SdkConfirm 10), (6700, SdkConfirm 10)]
   \<and> map request (sessions (handlerOf (run world0 raceTraceLate)) ''@alice:hs'' ''D1'') = [0]"
  by (simp add: reuse_final race_late_final shown_def confirms_def sessions_def)

end
